theory Spec2Isabelle
  imports Complex_Main "HOL-Library.Word" "HOL-Library.Sublist"
begin

section \<open>Text\<close>

text \<open>
  Text is a sequence of UTF-16 code units, as a TypeScript \<^verbatim>\<open>string\<close> and a JSON string
  on the web socket are. The Python server only forwards and concatenates text, so the
  same type serves on both sides of the socket. A literal of the source is written
  \<open>ascii ''...''\<close>.
\<close>

type_synonym jstring = "16 word list"

definition ascii :: "string \<Rightarrow> jstring" where
  "ascii s = map of_char s"

text \<open>
  \<^verbatim>\<open>String.prototype.trim\<close> removes, from both ends, the code points of ECMAScript's
  WhiteSpace and LineTerminator productions: TAB, VT, FF, SP, NBSP, ZWNBSP, the other
  space separators of Unicode (category Zs), LF, CR, LS and PS. All of them are single
  code units.
\<close>

definition js_white_space :: "16 word \<Rightarrow> bool" where
  "js_white_space c =
     (c = 0x0009 \<or> c = 0x000A \<or> c = 0x000B \<or> c = 0x000C \<or> c = 0x000D \<or> c = 0x0020
      \<or> c = 0x00A0 \<or> c = 0x1680 \<or> (0x2000 \<le> c \<and> c \<le> 0x200A) \<or> c = 0x2028
      \<or> c = 0x2029 \<or> c = 0x202F \<or> c = 0x205F \<or> c = 0x3000 \<or> c = 0xFEFF)"

definition js_trim :: "jstring \<Rightarrow> jstring" where
  "js_trim s = rev (dropWhile js_white_space (rev (dropWhile js_white_space s)))"

text \<open>A string is truthy in a JavaScript condition when it is not empty.\<close>

definition truthy :: "jstring \<Rightarrow> bool" where
  "truthy s = (s \<noteq> [])"

section \<open>InputBar.tsx\<close>

text \<open>
  The component's state is the \<^verbatim>\<open>input\<close> string. The \<^verbatim>\<open>onSend\<close> property is a callback
  of the parent: the model records its calls, in order, in \<open>onSend_calls\<close>. The
  \<^verbatim>\<open>disabled\<close> property is an argument of the handlers.
\<close>

record InputBar_state =
  input :: jstring
  onSend_calls :: "jstring list"

text \<open>
  \<^verbatim>\<open>
  const handleSend = () => {
      const trimmed = input.trim();
      if (trimmed && !disabled) {
          onSend(trimmed);
          setInput('');
      }
  };
  \<close>
\<close>

definition InputBar_handleSend :: "bool \<Rightarrow> InputBar_state \<Rightarrow> InputBar_state" where
  "InputBar_handleSend disabled s =
     (let trimmed = js_trim (input s)
      in if truthy trimmed \<and> \<not> disabled
         then s\<lparr>onSend_calls := onSend_calls s @ [trimmed], input := []\<rparr>
         else s)"

text \<open>
  \<^verbatim>\<open>
  const handleKeyDown = (e: KeyboardEvent<HTMLInputElement>) => {
      if (e.key === 'Enter' && !e.shiftKey) {
          e.preventDefault();
          handleSend();
      }
  };
  \<close>
\<close>

record KeyboardEvent =
  key :: string
  shiftKey :: bool

definition handleKeyDown :: "bool \<Rightarrow> KeyboardEvent \<Rightarrow> InputBar_state \<Rightarrow> InputBar_state" where
  "handleKeyDown disabled e s =
     (if key e = ''Enter'' \<and> \<not> shiftKey e then InputBar_handleSend disabled s else s)"

section \<open>JSON on the web socket\<close>

text \<open>
  A parsed JSON value. A number is the value of the parsed double. An object keeps its
  members as written; \<open>member\<close> reads one, and of a repeated key it reads the last, as both
  \<^verbatim>\<open>JSON.parse\<close> and Python's \<^verbatim>\<open>json.loads\<close> do.
\<close>

datatype json =
  JNull
| JBool bool
| JNumber real
| JString jstring
| JArray "json list"
| JObject "(string \<times> json) list"

definition member :: "(string \<times> json) list \<Rightarrow> string \<Rightarrow> json option" where
  "member kvs k = map_of (rev kvs) k"

text \<open>The keys of a JSON object, in order; a value that is no object has none.\<close>

fun keys_of :: "json \<Rightarrow> string list" where
  "keys_of (JObject kvs) = map fst kvs"
| "keys_of _ = []"

fun is_object :: "json \<Rightarrow> bool" where
  "is_object (JObject kvs) = True"
| "is_object _ = False"

text \<open>
  JavaScript on parsed JSON. A value is truthy unless it is \<^verbatim>\<open>null\<close>, \<^verbatim>\<open>false\<close>, zero or
  the empty string. Reading a property \<^verbatim>\<open>v.k\<close> of a value that is not \<^verbatim>\<open>null\<close> gives the
  member of an object and \<^verbatim>\<open>undefined\<close> (\<open>None\<close>) otherwise; the keys read in this program
  (\<^verbatim>\<open>text\<close>, \<^verbatim>\<open>audio\<close>, \<^verbatim>\<open>error\<close>) are no built-in property of a string, a number, a
  boolean or an array. Reading a property of \<^verbatim>\<open>null\<close> throws; the callers below test
  for \<^verbatim>\<open>null\<close> before they read.
\<close>

fun js_truthy :: "json \<Rightarrow> bool" where
  "js_truthy JNull = False"
| "js_truthy (JBool b) = b"
| "js_truthy (JNumber x) = (x \<noteq> 0)"
| "js_truthy (JString t) = (t \<noteq> [])"
| "js_truthy (JArray vs) = True"
| "js_truthy (JObject kvs) = True"

fun js_get :: "json \<Rightarrow> string \<Rightarrow> json option" where
  "js_get (JObject kvs) k = member kvs k"
| "js_get _ k = None"

section \<open>hooks/useNemoSocket.ts\<close>

text \<open>
  \<^verbatim>\<open>
  interface NemoResponse {
      text: string;
      audio: string;
      visemes: unknown[];
      error?: string;
  }
  \<close>
  The field \<^verbatim>\<open>text\<close> is \<open>resp_text\<close> here and \<^verbatim>\<open>error\<close> is \<open>resp_error\<close>. The interface is
  a compile-time type: the hook does not check a frame against it.
  \<open>parse_NemoResponse\<close> reads a frame that fits the interface as a value of it, and is
  \<open>None\<close> for any other frame.
\<close>

record NemoResponse =
  resp_text :: jstring
  audio :: jstring
  visemes :: "json list"
  resp_error :: "jstring option"

definition parse_NemoResponse :: "json \<Rightarrow> NemoResponse option" where
  "parse_NemoResponse j =
     (case j of
        JObject kvs \<Rightarrow>
          (case (member kvs ''text'', member kvs ''audio'', member kvs ''visemes'') of
             (Some (JString t), Some (JString a), Some (JArray v)) \<Rightarrow>
               (case member kvs ''error'' of
                  None \<Rightarrow> Some \<lparr>resp_text = t, audio = a, visemes = v, resp_error = None\<rparr>
                | Some (JString e) \<Rightarrow>
                    Some \<lparr>resp_text = t, audio = a, visemes = v, resp_error = Some e\<rparr>
                | Some _ \<Rightarrow> None)
           | _ \<Rightarrow> None)
      | _ \<Rightarrow> None)"

definition RECONNECT_DELAY :: nat where
  "RECONNECT_DELAY = 3000"

definition MAX_RECONNECT_ATTEMPTS :: nat where
  "MAX_RECONNECT_ATTEMPTS = 5"

datatype readyState = CONNECTING | OPEN | CLOSING | CLOSED

text \<open>
  The state of the hook: its four \<^verbatim>\<open>useState\<close> cells and three \<^verbatim>\<open>useRef\<close> cells.
  \<open>lastResponse\<close> holds the parsed frame as it came (\<open>None\<close> for \<^verbatim>\<open>null\<close>), and \<open>error\<close>
  holds what was given to \<^verbatim>\<open>setError\<close>: a string literal of the hook, or the \<^verbatim>\<open>error\<close> member
  of a frame, whatever its type. \<open>wsRef\<close> holds the ready state of the current socket
  (\<open>None\<close> for \<^verbatim>\<open>null\<close>). \<open>reconnectTimeoutRef\<close> is \<open>Some d\<close> while a timer set with delay
  \<open>d\<close> has not fired. Two logs make the effects observable: \<open>timeouts\<close> lists the delay of
  every \<^verbatim>\<open>setTimeout\<close> call and \<open>wire\<close> lists every frame given to \<^verbatim>\<open>ws.send\<close>, in order.
\<close>

record socket_state =
  isConnected :: bool
  isConnecting :: bool
  lastResponse :: "json option"
  error :: "json option"
  wsRef :: "readyState option"
  reconnectAttemptsRef :: nat
  reconnectTimeoutRef :: "nat option"
  timeouts :: "nat list"
  wire :: "json list"

text \<open>The state when the hook is first rendered, before the mount effect runs.\<close>

definition useNemoSocket_initial :: socket_state where
  "useNemoSocket_initial =
     \<lparr>isConnected = False, isConnecting = True, lastResponse = None, error = None,
      wsRef = None, reconnectAttemptsRef = 0, reconnectTimeoutRef = None,
      timeouts = [], wire = []\<rparr>"

text \<open>
  \<^verbatim>\<open>
  const connect = useCallback(() => {
      if (wsRef.current?.readyState === WebSocket.OPEN) { return; }
      setIsConnecting(true);
      setError(null);
      try {
          const ws = new WebSocket(WS_URL);
          wsRef.current = ws;
          ws.onopen = ...; ws.onclose = ...; ws.onerror = ...; ws.onmessage = ...;
      } catch (e) {
          setIsConnecting(false);
          setError('Failed to connect');
      }
  }, []);
  \<close>
  \<open>constructed\<close> says whether \<^verbatim>\<open>new WebSocket\<close> returned a socket; when it throws,
  no handler is installed.
\<close>

definition connect :: "bool \<Rightarrow> socket_state \<Rightarrow> socket_state" where
  "connect constructed s =
     (if wsRef s = Some OPEN then s
      else if constructed
      then s\<lparr>isConnecting := True, error := None, wsRef := Some CONNECTING\<rparr>
      else s\<lparr>isConnecting := False, error := Some (JString (ascii ''Failed to connect''))\<rparr>)"

text \<open>
  \<^verbatim>\<open>
  ws.onopen = () => {
      setIsConnected(true);
      setIsConnecting(false);
      setError(null);
      reconnectAttemptsRef.current = 0;
  };
  \<close>
\<close>

definition onopen :: "socket_state \<Rightarrow> socket_state" where
  "onopen s =
     s\<lparr>isConnected := True, isConnecting := False, error := None,
       reconnectAttemptsRef := 0, wsRef := Some OPEN\<rparr>"

text \<open>
  \<^verbatim>\<open>
  ws.onclose = (event) => {
      setIsConnected(false);
      setIsConnecting(false);
      if (reconnectAttemptsRef.current < MAX_RECONNECT_ATTEMPTS) {
          reconnectAttemptsRef.current++;
          reconnectTimeoutRef.current = setTimeout(() => { connect(); }, RECONNECT_DELAY);
      } else {
          setError('Unable to connect to Nemo. Is the server running?');
      }
  };
  \<close>
\<close>

definition unable_to_connect :: json where
  "unable_to_connect = JString (ascii ''Unable to connect to Nemo. Is the server running?'')"

definition onclose :: "socket_state \<Rightarrow> socket_state" where
  "onclose s =
     (let s' = s\<lparr>isConnected := False, isConnecting := False, wsRef := Some CLOSED\<rparr>
      in if reconnectAttemptsRef s' < MAX_RECONNECT_ATTEMPTS
         then s'\<lparr>reconnectAttemptsRef := reconnectAttemptsRef s' + 1,
                 reconnectTimeoutRef := Some RECONNECT_DELAY,
                 timeouts := timeouts s' @ [RECONNECT_DELAY]\<rparr>
         else s'\<lparr>error := Some unable_to_connect\<rparr>)"

text \<open>
  \<^verbatim>\<open>
  ws.onerror = (event) => { setError('Connection error'); };
  \<close>
\<close>

definition onerror :: "socket_state \<Rightarrow> socket_state" where
  "onerror s = s\<lparr>error := Some (JString (ascii ''Connection error''))\<rparr>"

text \<open>
  \<^verbatim>\<open>
  ws.onmessage = (event) => {
      try {
          const data: NemoResponse = JSON.parse(event.data);
          console.log('Received:', data.text?.substring(0, 50));
          setLastResponse(data);
          if (data.error) { setError(data.error); }
      } catch (e) { console.error('Failed to parse message:', e); }
  };
  \<close>
  \<open>data\<close> is the value \<^verbatim>\<open>JSON.parse\<close> returned; a frame that is no JSON makes
  \<^verbatim>\<open>JSON.parse\<close> throw and is the event \<open>ReceivedInvalid\<close> below. The logging line throws,
  before anything is stored, when \<open>data\<close> is \<^verbatim>\<open>null\<close> (a property of \<^verbatim>\<open>null\<close> is read) and
  when \<^verbatim>\<open>data.text\<close> is neither \<^verbatim>\<open>undefined\<close>, \<^verbatim>\<open>null\<close> nor a string (it has no
  \<^verbatim>\<open>substring\<close> to call). Everything else is stored as it is, with no check of its shape.
\<close>

definition preview_throws :: "json \<Rightarrow> bool" where
  "preview_throws data =
     (case data of
        JNull \<Rightarrow> True
      | _ \<Rightarrow>
          (case js_get data ''text'' of
             None \<Rightarrow> False
           | Some JNull \<Rightarrow> False
           | Some (JString t) \<Rightarrow> False
           | Some _ \<Rightarrow> True))"

definition onmessage :: "json \<Rightarrow> socket_state \<Rightarrow> socket_state" where
  "onmessage data s =
     (if preview_throws data then s
      else
        (let s' = s\<lparr>lastResponse := Some data\<rparr>
         in case js_get data ''error'' of
              None \<Rightarrow> s'
            | Some e \<Rightarrow> if js_truthy e then s'\<lparr>error := Some e\<rparr> else s'))"

text \<open>
  \<^verbatim>\<open>
  const sendMessage = useCallback((text: string) => {
      if (!wsRef.current || wsRef.current.readyState !== WebSocket.OPEN) {
          setError('Not connected to Nemo');
          return;
      }
      const message = JSON.stringify({ text });
      wsRef.current.send(message);
  }, []);
  \<close>
\<close>

definition sendMessage :: "jstring \<Rightarrow> socket_state \<Rightarrow> socket_state" where
  "sendMessage t s =
     (if wsRef s \<noteq> Some OPEN
      then s\<lparr>error := Some (JString (ascii ''Not connected to Nemo''))\<rparr>
      else s\<lparr>wire := wire s @ [JObject [(''text'', JString t)]]\<rparr>)"

text \<open>
  The timer set by \<open>onclose\<close> fires: it runs \<^verbatim>\<open>connect()\<close>. Without a pending timer
  nothing happens.
\<close>

definition timer_fires :: "bool \<Rightarrow> socket_state \<Rightarrow> socket_state" where
  "timer_fires constructed s =
     (case reconnectTimeoutRef s of
        None \<Rightarrow> s
      | Some d \<Rightarrow> connect constructed (s\<lparr>reconnectTimeoutRef := None\<rparr>))"

text \<open>
  One disconnection: the current socket closes without having opened, and the timer
  that \<open>onclose\<close> may have set fires and connects again. \<open>disconnections n\<close> is \<open>n\<close>
  of them in a row.
\<close>

definition disconnection :: "socket_state \<Rightarrow> socket_state" where
  "disconnection s = timer_fires True (onclose s)"

fun disconnections :: "nat \<Rightarrow> socket_state \<Rightarrow> socket_state" where
  "disconnections 0 s = s"
| "disconnections (Suc n) s = disconnections n (disconnection s)"

text \<open>The events of a socket, and the hook's reaction to a sequence of them.\<close>

datatype socket_event =
  Opened
| Closed
| Errored
| Received json
| ReceivedInvalid
| TimerFired bool

fun socket_step :: "socket_event \<Rightarrow> socket_state \<Rightarrow> socket_state" where
  "socket_step Opened s = onopen s"
| "socket_step Closed s = onclose s"
| "socket_step Errored s = onerror s"
| "socket_step (Received frame) s = onmessage frame s"
| "socket_step ReceivedInvalid s = s"
| "socket_step (TimerFired constructed) s = timer_fires constructed s"

fun socket_run :: "socket_event list \<Rightarrow> socket_state \<Rightarrow> socket_state" where
  "socket_run [] s = s"
| "socket_run (e # es) s = socket_run es (socket_step e s)"

text \<open>
  A server that accepts every connection and then drops it, six times: each time the
  socket closes, the timer fires and the new socket opens.
\<close>

definition flapping :: "socket_event list" where
  "flapping = concat (replicate 6 [Closed, TimerFired True, Opened])"

section \<open>App.tsx\<close>

text \<open>
  \<^verbatim>\<open>
  export interface Message {
      id: string;
      role: 'user' | 'nemo';
      content: string;
      timestamp: Date;
  }
  \<close>
  An id is \<^verbatim>\<open>`user-${Date.now()}`\<close> or \<^verbatim>\<open>`nemo-${Date.now()}`\<close>: the model keeps its prefix and
  its clock reading. A \<^verbatim>\<open>Date\<close> is its time in milliseconds.
\<close>

datatype role = user | nemo

record Message =
  msg_id :: "string \<times> nat"
  msg_role :: role
  content :: jstring
  timestamp :: nat

text \<open>
  The state of \<^verbatim>\<open>App\<close>: \<^verbatim>\<open>messages\<close> and \<^verbatim>\<open>isTyping\<close>, the reference
  \<^verbatim>\<open>processedResponseRef\<close>, and the state of the hook \<^verbatim>\<open>useNemoSocket\<close>. \<open>played\<close> logs the
  arguments of the calls of \<^verbatim>\<open>playAudio\<close>.
\<close>

record App_state =
  messages :: "Message list"
  isTyping :: bool
  processedResponseRef :: "jstring option"
  socket :: socket_state
  played :: "json list"

definition App_initial :: App_state where
  "App_initial =
     \<lparr>messages = [], isTyping = False, processedResponseRef = None,
      socket = useNemoSocket_initial, played = []\<rparr>"

text \<open>
  \<^verbatim>\<open>
  const handleSend = useCallback((text: string) => {
      const userMessage: Message = {
        id: `user-${Date.now()}`, role: 'user', content: text, timestamp: new Date(),
      };
      setMessages(prev => [...prev, userMessage]);
      setIsTyping(true);
      sendMessage(text);
  }, [sendMessage]);
  \<close>
  \<open>now\<close> and \<open>date\<close> are the two readings of the clock.
\<close>

definition App_handleSend :: "nat \<Rightarrow> nat \<Rightarrow> jstring \<Rightarrow> App_state \<Rightarrow> App_state" where
  "App_handleSend now date t s =
     (let userMessage = \<lparr>msg_id = (''user'', now), msg_role = user, content = t, timestamp = date\<rparr>
      in s\<lparr>messages := messages s @ [userMessage],
           isTyping := True,
           socket := sendMessage t (socket s)\<rparr>)"

text \<open>
  The effect on \<^verbatim>\<open>lastResponse\<close>:
  \<^verbatim>\<open>
  useEffect(() => {
    if (lastResponse && lastResponse.text) {
      if (processedResponseRef.current === lastResponse.text) { return; }
      processedResponseRef.current = lastResponse.text;
      setIsTyping(false);
      const nemoMessage: Message = {
        id: `nemo-${Date.now()}`, role: 'nemo', content: lastResponse.text, timestamp: new Date(),
      };
      setMessages(prev => [...prev, nemoMessage]);
      if (lastResponse.audio) { playAudioRef.current(lastResponse.audio); }
    }
  }, [lastResponse]);
  \<close>
  \<open>lastResponse_text\<close> is \<^verbatim>\<open>lastResponse.text\<close> as the condition sees it: the string, or the
  empty string when the member is absent or \<^verbatim>\<open>null\<close>, which are falsy like it. The hook
  stores no frame whose \<^verbatim>\<open>text\<close> is of another type (\<open>preview_throws\<close>), so no other value
  reaches this effect.
\<close>

definition lastResponse_text :: "json \<Rightarrow> jstring" where
  "lastResponse_text r = (case js_get r ''text'' of Some (JString t) \<Rightarrow> t | _ \<Rightarrow> [])"

definition App_onResponse :: "nat \<Rightarrow> nat \<Rightarrow> json option \<Rightarrow> App_state \<Rightarrow> App_state" where
  "App_onResponse now date response s =
     (case response of
        None \<Rightarrow> s
      | Some r \<Rightarrow>
          if \<not> (js_truthy r \<and> truthy (lastResponse_text r)) then s
          else if processedResponseRef s = Some (lastResponse_text r) then s
          else
            (let nemoMessage =
                   \<lparr>msg_id = (''nemo'', now), msg_role = nemo, content = lastResponse_text r,
                    timestamp = date\<rparr>;
                 s' = s\<lparr>processedResponseRef := Some (lastResponse_text r),
                        isTyping := False,
                        messages := messages s @ [nemoMessage]\<rparr>
             in case js_get r ''audio'' of
                  None \<Rightarrow> s'
                | Some a \<Rightarrow> if js_truthy a then s'\<lparr>played := played s' @ [a]\<rparr> else s'))"

text \<open>
  A frame arrives: the hook's \<open>onmessage\<close> handles it, and when it did set
  \<^verbatim>\<open>lastResponse\<close> to the new value the effect above runs on it.
\<close>

definition App_receive :: "nat \<Rightarrow> nat \<Rightarrow> json \<Rightarrow> App_state \<Rightarrow> App_state" where
  "App_receive now date frame s =
     (let s' = s\<lparr>socket := onmessage frame (socket s)\<rparr>
      in if preview_throws frame then s'
         else App_onResponse now date (lastResponse (socket s')) s')"

text \<open>
  A sequence of frames received, each with the two clock readings of its effect, and the
  text of the last response of a sequence that had any.
\<close>

fun App_responses :: "(nat \<times> nat \<times> json) list \<Rightarrow> App_state \<Rightarrow> App_state" where
  "App_responses [] s = s"
| "App_responses ((now, date, r) # rs) s = App_responses rs (App_receive now date r s)"

fun last_nonempty_text :: "json list \<Rightarrow> jstring option" where
  "last_nonempty_text [] = None"
| "last_nonempty_text (r # rs) =
     (case last_nonempty_text rs of
        Some t \<Rightarrow> Some t
      | None \<Rightarrow> if lastResponse_text r = [] then None else Some (lastResponse_text r))"

text \<open>
  Three responses for concrete runs: an answer, a frame that reports an error and has an
  empty text, and the same answer again.
\<close>

definition response_a :: json where
  "response_a = JObject [(''audio'', JString (ascii ''QQ=='')), (''text'', JString (ascii ''ok'')),
                         (''visemes'', JArray [])]"

definition response_error :: json where
  "response_error = JObject [(''error'', JString (ascii ''TTS failed'')), (''text'', JString [])]"

section \<open>The backend: core/memory.py and server.py\<close>

text \<open>
  Every exception of the server is caught by the \<^verbatim>\<open>except Exception\<close> of the endpoint.
  \<open>ProviderError\<close> stands for whatever a collaborator raises (Mem0, the LLM client, the
  speech synthesis): a timeout, a provider error.
\<close>

datatype py_exception =
  KeyError string
| TypeError
| WebSocketDisconnect
| ProviderError string

text \<open>
  The three service objects of \<^verbatim>\<open>server.py\<close>, each a call that returns or raises:
  \<^verbatim>\<open>self.m.search(text, user_id=self.user_id, limit=3)\<close>,
  \<^verbatim>\<open>llm.generate(user_text, system_prompt)\<close> and \<^verbatim>\<open>tts.synthesize(response_text)\<close>.
\<close>

record services =
  m_search :: "json \<Rightarrow> py_exception + json list"
  llm_generate :: "json \<Rightarrow> jstring \<Rightarrow> py_exception + jstring"
  tts_synthesize :: "jstring \<Rightarrow> py_exception + jstring"

text \<open>
  Python's \<^verbatim>\<open>d['k']\<close>: the value under the key, whatever its type; \<^verbatim>\<open>KeyError\<close> when the
  dictionary has no such key; \<^verbatim>\<open>TypeError\<close> when \<^verbatim>\<open>d\<close> is no dictionary (a list or a string
  takes no string index, the other values no index at all).
\<close>

definition py_subscript :: "json \<Rightarrow> string \<Rightarrow> py_exception + json" where
  "py_subscript d k =
     (case d of
        JObject kvs \<Rightarrow> (case member kvs k of None \<Rightarrow> Inl (KeyError k) | Some v \<Rightarrow> Inr v)
      | _ \<Rightarrow> Inl TypeError)"

text \<open>
  \<^verbatim>\<open>[m['memory'] for m in memories]\<close>: the list is built in order, and the first element
  whose subscript raises ends the comprehension with that exception.
\<close>

fun memory_values :: "json list \<Rightarrow> py_exception + json list" where
  "memory_values [] = Inr []"
| "memory_values (m # ms) =
     (case py_subscript m ''memory'' of
        Inl e \<Rightarrow> Inl e
      | Inr v \<Rightarrow> (case memory_values ms of Inl e \<Rightarrow> Inl e | Inr vs \<Rightarrow> Inr (v # vs)))"

text \<open>
  \<^verbatim>\<open>"\n".join(xs)\<close> on the finished list: \<^verbatim>\<open>TypeError\<close> when an item is no string.
\<close>

fun join_lines :: "jstring list \<Rightarrow> jstring" where
  "join_lines [] = []"
| "join_lines [x] = x"
| "join_lines (x # y # ys) = x @ [0x000A] @ join_lines (y # ys)"

fun str_items :: "json list \<Rightarrow> py_exception + jstring list" where
  "str_items [] = Inr []"
| "str_items (JString t # vs) =
     (case str_items vs of Inl e \<Rightarrow> Inl e | Inr ts \<Rightarrow> Inr (t # ts))"
| "str_items (v # vs) = Inl TypeError"

definition py_join :: "json list \<Rightarrow> py_exception + jstring" where
  "py_join vs = (case str_items vs of Inl e \<Rightarrow> Inl e | Inr ts \<Rightarrow> Inr (join_lines ts))"

text \<open>
  \<^verbatim>\<open>
  def get_context(self, text: str) -> str:
      memories = self.m.search(text, user_id=self.user_id, limit=3)
      context_str = "\n".join([m['memory'] for m in memories])
      return context_str
  \<close>
  There is no \<^verbatim>\<open>try\<close> in it: what \<^verbatim>\<open>search\<close> raises, \<^verbatim>\<open>get_context\<close> raises.
\<close>

definition get_context :: "services \<Rightarrow> json \<Rightarrow> py_exception + jstring" where
  "get_context sv t =
     (case m_search sv t of
        Inl e \<Rightarrow> Inl e
      | Inr memories \<Rightarrow>
          (case memory_values memories of
             Inl e \<Rightarrow> Inl e
           | Inr vs \<Rightarrow> py_join vs))"

text \<open>
  \<^verbatim>\<open>
  system_prompt = f"""
  You are Shanaya, a sassy and empathetic friend.

  RELEVANT MEMORIES (Use these to personalize the chat):
  {past_context}

  Keep responses short (under 2 sentences) and conversational.
  """
  \<close>
  Each line of the literal starts with the twelve spaces of its indentation.
\<close>

definition prompt_indent :: jstring where
  "prompt_indent = [0x000A] @ replicate 12 0x0020"

definition system_prompt :: "jstring \<Rightarrow> jstring" where
  "system_prompt past_context =
     prompt_indent @ ascii ''You are Shanaya, a sassy and empathetic friend.''
     @ prompt_indent
     @ prompt_indent @ ascii ''RELEVANT MEMORIES (Use these to personalize the chat):''
     @ prompt_indent @ past_context
     @ prompt_indent
     @ prompt_indent @ ascii ''Keep responses short (under 2 sentences) and conversational.''
     @ prompt_indent"

text \<open>
  One iteration of the loop of \<^verbatim>\<open>websocket_endpoint\<close>, from the received frame
  \<^verbatim>\<open>data\<close> on:
  \<^verbatim>\<open>
  user_text = data['text']
  past_context = memory_service.get_context(user_text)
  system_prompt = f"""..."""
  response_text = await llm.generate(user_text, system_prompt)
  audio_base64 = await tts.synthesize(response_text)
  await websocket.send_json({"audio": audio_base64, "text": response_text, "visemes": []})
  asyncio.create_task(async_save_memory(user_text, response_text))
  \<close>
  \<^verbatim>\<open>user_text\<close> is whatever value the frame has under \<^verbatim>\<open>text\<close>. The result is the
  exception that ends the iteration, or the frame sent together with the arguments of the
  task created.
\<close>

definition talk_turn :: "services \<Rightarrow> json \<Rightarrow> py_exception + json \<times> (json \<times> jstring)" where
  "talk_turn sv data =
     (case py_subscript data ''text'' of
        Inl e \<Rightarrow> Inl e
      | Inr user_text \<Rightarrow>
     (case get_context sv user_text of
        Inl e \<Rightarrow> Inl e
      | Inr past_context \<Rightarrow>
     (case llm_generate sv user_text (system_prompt past_context) of
        Inl e \<Rightarrow> Inl e
      | Inr response_text \<Rightarrow>
     (case tts_synthesize sv response_text of
        Inl e \<Rightarrow> Inl e
      | Inr audio_base64 \<Rightarrow>
          Inr (JObject [(''audio'', JString audio_base64),
                        (''text'', JString response_text),
                        (''visemes'', JArray [])],
               (user_text, response_text))))))"

text \<open>
  What the endpoint does is observed in three logs: the frames sent, the background
  tasks created (the arguments of \<^verbatim>\<open>async_save_memory\<close>) and the exceptions printed.
\<close>

record server_trace =
  sent :: "json list"
  background :: "(json \<times> jstring) list"
  printed :: "py_exception list"

definition no_trace :: server_trace where
  "no_trace = \<lparr>sent = [], background = [], printed = []\<rparr>"

text \<open>
  \<^verbatim>\<open>
  async def websocket_endpoint(websocket: WebSocket):
      await websocket.accept()
      try:
          while True:
              data = await websocket.receive_json()
              ...
      except Exception as e:
          print(f"Error: {e}")
  \<close>
  The frames the client sends are the list \<open>frames\<close>; after the last one the client is
  gone and \<^verbatim>\<open>receive_json\<close> raises. The \<^verbatim>\<open>try\<close> is around the loop: the first exception
  ends the loop and the endpoint.
\<close>

fun websocket_endpoint :: "services \<Rightarrow> json list \<Rightarrow> server_trace \<Rightarrow> server_trace" where
  "websocket_endpoint sv [] tr = tr\<lparr>printed := printed tr @ [WebSocketDisconnect]\<rparr>"
| "websocket_endpoint sv (data # frames) tr =
     (case talk_turn sv data of
        Inl e \<Rightarrow> tr\<lparr>printed := printed tr @ [e]\<rparr>
      | Inr (frame, task) \<Rightarrow>
          websocket_endpoint sv frames
            (tr\<lparr>sent := sent tr @ [frame], background := background tr @ [task]\<rparr>))"

section \<open>Shapes of the frames\<close>

text \<open>
  A frame has a shape when it is an object that has every required key and no key
  beyond the required and the optional ones.
\<close>

definition has_shape :: "string list \<Rightarrow> string list \<Rightarrow> json \<Rightarrow> bool" where
  "has_shape required optional j =
     (is_object j
      \<and> list_all (\<lambda>k. k \<in> set (keys_of j)) required
      \<and> list_all (\<lambda>k. k \<in> set required \<or> k \<in> set optional) (keys_of j))"

text \<open>
  The two shapes in the words of the specification: a request \<^verbatim>\<open>{text, user_id?}\<close> and
  a result \<^verbatim>\<open>{final_text, streamed_deltas?, tool_trace?}\<close>.
\<close>

definition spec_request_shape :: "json \<Rightarrow> bool" where
  "spec_request_shape = has_shape [''text''] [''user_id'']"

definition spec_result_shape :: "json \<Rightarrow> bool" where
  "spec_result_shape = has_shape [''final_text''] [''streamed_deltas'', ''tool_trace'']"

text \<open>The shape the interface \<^verbatim>\<open>NemoResponse\<close> of the hook declares.\<close>

definition NemoResponse_shape :: "json \<Rightarrow> bool" where
  "NemoResponse_shape = has_shape [''text'', ''audio'', ''visemes''] [''error'']"

section \<open>A turn of a session, front end and backend together\<close>

text \<open>
  The user's text goes through \<open>App_handleSend\<close>; when the socket is open the frame it
  put on the wire reaches one iteration of the endpoint's loop, and the frame the
  endpoint sends back, if any, reaches \<open>App_receive\<close>. \<open>now'\<close> and \<open>date'\<close> are the
  clock readings at the response.
\<close>

definition session_turn ::
  "services \<Rightarrow> nat \<Rightarrow> nat \<Rightarrow> nat \<Rightarrow> nat \<Rightarrow> jstring \<Rightarrow> App_state \<Rightarrow> App_state" where
  "session_turn sv now date now' date' t s =
     (let s1 = App_handleSend now date t s
      in if wsRef (socket s) \<noteq> Some OPEN then s1
         else (case talk_turn sv (last (wire (socket s1))) of
                 Inl e \<Rightarrow> s1
               | Inr (frame, task) \<Rightarrow> App_receive now' date' frame s1))"

text \<open>
  Two sets of services for concrete runs: one whose memory store times out, one whose
  memory store is empty. In both the LLM answers with the user's text (with the empty
  string when that is no string) and the speech synthesis returns no audio.
\<close>

definition services_memory_down :: services where
  "services_memory_down =
     \<lparr>m_search = (\<lambda>q. Inl (ProviderError ''timeout'')),
      llm_generate = (\<lambda>u p. Inr (case u of JString t \<Rightarrow> t | _ \<Rightarrow> [])),
      tts_synthesize = (\<lambda>r. Inr [])\<rparr>"

definition services_echo :: services where
  "services_echo =
     \<lparr>m_search = (\<lambda>q. Inr []),
      llm_generate = (\<lambda>u p. Inr (case u of JString t \<Rightarrow> t | _ \<Rightarrow> [])),
      tts_synthesize = (\<lambda>r. Inr [])\<rparr>"

text \<open>
  A third set: the memory store recalls one memory and the LLM answers from it.
\<close>

definition services_recall :: services where
  "services_recall =
     \<lparr>m_search = (\<lambda>q. Inr [JObject [(''memory'', JString (ascii ''deadline is Friday''))]]),
      llm_generate = (\<lambda>u p. Inr (ascii ''It is Friday.'')),
      tts_synthesize = (\<lambda>r. Inr [])\<rparr>"

text \<open>The application once its socket has opened.\<close>

definition App_connected :: App_state where
  "App_connected = App_initial\<lparr>socket := onopen (connect True useNemoSocket_initial)\<rparr>"

section \<open>ToolRegistry\<close>

text \<open>
  The agent core (\<^verbatim>\<open>tools.py\<close> with the tool registry, \<^verbatim>\<open>main.py\<close> with the agent loop and
  its sliding window of context) is described by the specification and by the class
  diagrams of the architecture notes; its code is not among the sources. The definitions
  of this and the next two sections follow the specification's sentences.
\<close>

datatype error_kind =
  DuplicateTool
| UnknownTool
| InvalidArguments
| ToolExecutionError

text \<open>
  Modelled from the spec: the data types of \<^verbatim>\<open>tools.py\<close>, which is missing (ToolParameter
  and Tool as the class diagram declares them, ToolInvocation and ToolResult as the data
  model of the specification does). The type \<open>'v\<close> is the type of argument values
  (arbitrary scalar or structured values); the arguments of an invocation are a mapping
  from names to values. Executors may perform arbitrary external
  effects: \<open>'w\<close> is the type of the world they act on (file system, network, processes).
  An executor is given the arguments and the world; it leaves a world behind, and it
  either returns its output or raises, which is \<open>Inl\<close> with the message of the exception.
\<close>

record 'v ToolParameter =
  param_name :: string
  param_type :: string
  param_description :: string
  required :: bool
  param_default :: "'v option"

record ('v, 'w) Tool =
  tool_name :: string
  tool_description :: string
  parameters :: "'v ToolParameter list"
  executor :: "(string \<rightharpoonup> 'v) \<Rightarrow> 'w \<Rightarrow> (string + jstring) \<times> 'w"

record 'v ToolInvocation =
  inv_id :: string
  inv_name :: string
  arguments :: "string \<rightharpoonup> 'v"

record ToolResult =
  result_tool_call_id :: string
  result_output :: "jstring option"
  result_error :: "(error_kind \<times> string) option"

text \<open>
  Modelled from the spec: what a call of the missing \<^verbatim>\<open>ToolRegistry.execute\<close> gives its
  caller. It fails with an error kind, or it returns the wrapped ToolResult; \<open>Propagated\<close>
  is the third thing a call of a Python method can do, an exception of the executor
  leaving \<^verbatim>\<open>execute\<close> uncaught.
\<close>

datatype execute_outcome =
  Failed error_kind
| Wrapped ToolResult
| Propagated string

text \<open>
  Modelled from the spec: the class ToolRegistry of the missing \<^verbatim>\<open>tools.py\<close>, a table from
  tool names to descriptors. What makes a value coercible to a declared parameter type is
  left open by the specification: it is the registry's \<open>coercible\<close>.
\<close>

record ('v, 'w) ToolRegistry =
  tools :: "string \<rightharpoonup> ('v, 'w) Tool"
  coercible :: "string \<Rightarrow> 'v \<Rightarrow> bool"

text \<open>
  Modelled from the spec: the missing \<^verbatim>\<open>ToolRegistry.register\<close>.
  \<^verbatim>\<open>register(name, description, parameters, executor)\<close> fails with \<^verbatim>\<open>DuplicateTool\<close> if
  the name is already registered.
\<close>

definition register ::
  "string \<Rightarrow> string \<Rightarrow> 'v ToolParameter list
   \<Rightarrow> ((string \<rightharpoonup> 'v) \<Rightarrow> 'w \<Rightarrow> (string + jstring) \<times> 'w)
   \<Rightarrow> ('v, 'w) ToolRegistry \<Rightarrow> error_kind + ('v, 'w) ToolRegistry" where
  "register name description ps ex reg =
     (case tools reg name of
        Some t \<Rightarrow> Inl DuplicateTool
      | None \<Rightarrow>
          Inr (reg\<lparr>tools := (tools reg)(name \<mapsto>
                 \<lparr>tool_name = name, tool_description = description, parameters = ps,
                  executor = ex\<rparr>)\<rparr>))"

text \<open>
  Modelled from the spec: the validation step of the missing \<^verbatim>\<open>ToolRegistry.execute\<close>,
  "required fields present, types coercible", as a pass over the declared parameters that
  stops at the first one the arguments violate: a required parameter that is absent, or
  a parameter that is present with a value not coercible to its declared type.
\<close>

fun validate ::
  "(string \<Rightarrow> 'v \<Rightarrow> bool) \<Rightarrow> 'v ToolParameter list \<Rightarrow> (string \<rightharpoonup> 'v) \<Rightarrow> bool" where
  "validate co [] args = True"
| "validate co (p # ps) args =
     (case args (param_name p) of
        None \<Rightarrow> if required p then False else validate co ps args
      | Some v \<Rightarrow> if co (param_type p) v then validate co ps args else False)"

text \<open>
  Modelled from the spec: the dispatch of the missing \<^verbatim>\<open>ToolRegistry.execute\<close>, "invokes
  the executor and wraps its outcome as ToolResult". The executor is called once, on the
  arguments of the invocation. Its output is wrapped as the result's \<^verbatim>\<open>output\<close>; an
  exception it raises leaves \<open>invoke\<close> as it is.
\<close>

definition invoke ::
  "('v, 'w) Tool \<Rightarrow> 'v ToolInvocation \<Rightarrow> 'w \<Rightarrow> execute_outcome \<times> 'w" where
  "invoke t call world =
     (case executor t (arguments call) world of
        (Inr out, world') \<Rightarrow>
          (Wrapped \<lparr>result_tool_call_id = inv_id call, result_output = Some out,
                    result_error = None\<rparr>, world')
      | (Inl msg, world') \<Rightarrow> (Propagated msg, world'))"

text \<open>
  Modelled from the spec: the handler of the missing \<^verbatim>\<open>ToolRegistry.execute\<close>,
  "executor-level failures are captured and returned as a ToolResult error, never
  propagated as a crash". An exception on its way out becomes the \<^verbatim>\<open>error\<close> of a
  ToolResult, of kind \<^verbatim>\<open>ToolExecutionError\<close>; anything else passes.
\<close>

definition capture :: "string \<Rightarrow> execute_outcome \<times> 'w \<Rightarrow> execute_outcome \<times> 'w" where
  "capture call_id r =
     (case r of
        (Propagated msg, world') \<Rightarrow>
          (Wrapped \<lparr>result_tool_call_id = call_id, result_output = None,
                    result_error = Some (ToolExecutionError, msg)\<rparr>, world')
      | (Failed kind, world') \<Rightarrow> r
      | (Wrapped res, world') \<Rightarrow> r)"

text \<open>
  Modelled from the spec: the missing \<^verbatim>\<open>ToolRegistry.execute\<close>. \<^verbatim>\<open>execute(name, arguments)\<close>
  is applied to the name and the arguments of an invocation, whose id becomes the result's
  \<^verbatim>\<open>tool_call_id\<close>, in a world. It fails with \<^verbatim>\<open>UnknownTool\<close> if the name is not
  registered and with \<^verbatim>\<open>InvalidArguments\<close> if the arguments do not validate, both before
  any dispatch; otherwise it invokes the executor under the handler.
\<close>

definition execute ::
  "('v, 'w) ToolRegistry \<Rightarrow> 'v ToolInvocation \<Rightarrow> 'w \<Rightarrow> execute_outcome \<times> 'w" where
  "execute reg call world =
     (case tools reg (inv_name call) of
        None \<Rightarrow> (Failed UnknownTool, world)
      | Some t \<Rightarrow>
          if \<not> validate (coercible reg) (parameters t) (arguments call)
          then (Failed InvalidArguments, world)
          else capture (inv_id call) (invoke t call world))"

text \<open>
  Exactly one of \<^verbatim>\<open>output\<close> and \<^verbatim>\<open>error\<close> (here \<open>result_output\<close> and \<open>result_error\<close>) is
  set.
\<close>

definition exactly_one_set :: "ToolResult \<Rightarrow> bool" where
  "exactly_one_set r = ((result_output r = None) \<noteq> (result_error r = None))"

text \<open>
  A registry for runs: one tool, \<^verbatim>\<open>read_file\<close>, with the required parameter \<^verbatim>\<open>path\<close>.
  The world is the list of the paths read so far; the executor raises on the path
  \<^verbatim>\<open>missing\<close>.
\<close>

definition read_file_tool :: "(string, string list) Tool" where
  "read_file_tool =
     \<lparr>tool_name = ''read_file'', tool_description = ''Read file contents'',
      parameters = [\<lparr>param_name = ''path'', param_type = ''str'',
                     param_description = ''the file'', required = True,
                     param_default = None\<rparr>],
      executor = (\<lambda>args world.
                    case args ''path'' of
                      None \<Rightarrow> (Inl ''no path'', world)
                    | Some p \<Rightarrow>
                        (if p = ''missing'' then Inl ''file not found''
                         else Inr (ascii ''contents''), world @ [p]))\<rparr>"

definition registry_empty :: "(string, string list) ToolRegistry" where
  "registry_empty = \<lparr>tools = Map.empty, coercible = (\<lambda>ty v. ty = ''str'')\<rparr>"

definition registry_one :: "(string, string list) ToolRegistry" where
  "registry_one =
     (case register ''read_file'' ''Read file contents'' (parameters read_file_tool)
             (executor read_file_tool) registry_empty of
        Inr reg \<Rightarrow> reg
      | Inl e \<Rightarrow> registry_empty)"

section \<open>ContextWindow\<close>

text \<open>
  Modelled from the spec: the Message of the missing agent core (\<^verbatim>\<open>main.py\<close>), with its
  four roles.
\<close>

datatype agent_role = User | Assistant | Tool | System

record 'v AgentMessage =
  agent_role :: agent_role
  agent_content :: jstring
  tool_calls :: "'v ToolInvocation list"
  tool_call_id :: "string option"
  created_at :: nat

text \<open>
  Modelled from the spec: the ContextWindow, the sliding window of the missing \<^verbatim>\<open>main.py\<close>.
  It owns the history and is bounded by a budget under an injectable cost function.
  \<open>standing\<close> is the standing system instruction, if the session has one.
\<close>

record 'v ContextWindow =
  history :: "'v AgentMessage list"
  budget :: nat
  cost :: "'v AgentMessage \<Rightarrow> nat"
  standing :: "'v AgentMessage option"

definition total_cost :: "('a \<Rightarrow> nat) \<Rightarrow> 'a list \<Rightarrow> nat" where
  "total_cost c h = sum_list (map c h)"

definition is_system :: "'v AgentMessage \<Rightarrow> bool" where
  "is_system m = (agent_role m = System)"

definition non_system :: "'v AgentMessage list \<Rightarrow> 'v AgentMessage list" where
  "non_system h = filter (\<lambda>m. \<not> is_system m) h"

text \<open>One eviction: the oldest message that is no system message leaves the history.\<close>

fun evict_oldest :: "'v AgentMessage list \<Rightarrow> 'v AgentMessage list" where
  "evict_oldest [] = []"
| "evict_oldest (m # ms) = (if is_system m then m # evict_oldest ms else ms)"

lemma non_system_evict_oldest:
  "non_system (evict_oldest h) = tl (non_system h)"
  by (induction h) (simp_all add: non_system_def)

text \<open>
  Modelled from the spec: the eviction loop of the missing \<^verbatim>\<open>ContextWindow.append\<close>. While
  the cumulative cost exceeds the budget, the oldest non-system message is evicted, in
  insertion order; a system message is never evicted. The edge case: a single message
  whose cost alone exceeds the budget is retained anyway. The loop ends when the budget
  is satisfied, when that single message is retained, or when no message is left to
  evict. (A single non-system message that does not exceed the budget alone, but does
  together with the system messages, is evicted like any other.)
\<close>

function evict :: "('v AgentMessage \<Rightarrow> nat) \<Rightarrow> nat \<Rightarrow> 'v AgentMessage list \<Rightarrow> 'v AgentMessage list" where
  "evict c b h =
     (if total_cost c h \<le> b then h
      else (case non_system h of
              [] \<Rightarrow> h
            | [x] \<Rightarrow> if b < c x then h else evict c b (evict_oldest h)
            | x # y # zs \<Rightarrow> evict c b (evict_oldest h)))"
  by pat_completeness auto
termination evict
  by (relation "measure (\<lambda>(c, b, h). length (non_system h))")
     (simp_all add: non_system_evict_oldest)

declare evict.simps [simp del]

text \<open>
  Modelled from the spec: the missing \<^verbatim>\<open>append\<close> of ContextWindow. \<^verbatim>\<open>append(message)\<close>
  appends and then evicts; the flag returned with the window is the warning signalled to
  the caller when the history is left over the budget.
\<close>

definition cw_append :: "'v AgentMessage \<Rightarrow> 'v ContextWindow \<Rightarrow> 'v ContextWindow \<times> bool" where
  "cw_append m w =
     (let h = evict (cost w) (budget w) (history w @ [m])
      in (w\<lparr>history := h\<rparr>, budget w < total_cost (cost w) h))"

text \<open>A sequence of appends, the oldest first.\<close>

fun cw_appends :: "'v AgentMessage list \<Rightarrow> 'v ContextWindow \<Rightarrow> 'v ContextWindow" where
  "cw_appends [] w = w"
| "cw_appends (m # ms) w = cw_appends ms (fst (cw_append m w))"

text \<open>
  Modelled from the spec: the missing \<^verbatim>\<open>snapshot\<close> and \<^verbatim>\<open>clear\<close> of ContextWindow.
  \<^verbatim>\<open>snapshot()\<close> is a copy of the history; \<^verbatim>\<open>clear()\<close> resets the history to only the
  standing system instruction.
\<close>

definition snapshot :: "'v ContextWindow \<Rightarrow> 'v AgentMessage list" where
  "snapshot w = history w"

definition clear :: "'v ContextWindow \<Rightarrow> 'v ContextWindow" where
  "clear w = w\<lparr>history := (case standing w of None \<Rightarrow> [] | Some m \<Rightarrow> [m])\<rparr>"

text \<open>
  A concrete window for runs: the cost of a message is the length of its content and the
  budget is 3. Its system instruction costs 2 and the user's message costs 5.
\<close>

definition system_ab :: "unit AgentMessage" where
  "system_ab =
     \<lparr>agent_role = System, agent_content = ascii ''ab'', tool_calls = [], tool_call_id = None,
      created_at = 0\<rparr>"

definition user_hello :: "unit AgentMessage" where
  "user_hello =
     \<lparr>agent_role = User, agent_content = ascii ''hello'', tool_calls = [], tool_call_id = None,
      created_at = 1\<rparr>"

definition window_3 :: "unit ContextWindow" where
  "window_3 =
     \<lparr>history = [system_ab], budget = 3, cost = (\<lambda>m. length (agent_content m)),
      standing = Some system_ab\<rparr>"


section \<open>AgentLoop\<close>

text \<open>
  Modelled from the spec: the failure the LLM capability of the missing AgentLoop
  (\<^verbatim>\<open>main.py\<close>) reports as a distinguishable error, \<^verbatim>\<open>LLMProviderError\<close>. It is transient
  (a network or rate-limit error, a timeout), and then retryable, or fatal (an
  authentication or invalid-request error).
\<close>

datatype llm_failure =
  Transient string
| Fatal string

text \<open>
  Modelled from the spec: how a turn of the missing AgentLoop ends. \<^verbatim>\<open>ToolLoopExceeded\<close>
  carries the degraded final answer that states the limit was hit; \<^verbatim>\<open>LLMProviderError\<close>
  is the turn failure surfaced to the caller.
\<close>

datatype turn_outcome =
  FinalAnswer jstring
| ToolLoopExceeded jstring
| LLMProviderError llm_failure

text \<open>
  Modelled from the spec: the collaborators and the configuration of the missing
  AgentLoop. \<open>chat k h\<close> is what the LLM capability does on the round-trip number \<open>k\<close> of
  the turn (from 0), sent the snapshot \<open>h\<close> (the tool schemas and the stream flag are
  fixed for the session): it returns the assistant's message or reports a provider
  failure; a provider may fail on one round-trip and answer the next one on the same
  snapshot. \<open>max_rounds\<close> is the configured maximum of \<^verbatim>\<open>round_count\<close>. The specification
  bounds the retries of a transient failure without giving the bound: \<open>max_retries\<close> is
  the configured number of retries of one call. \<open>limit_answer\<close> is the degraded answer,
  \<open>describe_error\<close> the text of a tool-error message, \<open>clock\<close> the time of the turn.
\<close>

record ('v, 'w) AgentLoop =
  chat :: "nat \<Rightarrow> 'v AgentMessage list \<Rightarrow> llm_failure + 'v AgentMessage"
  registry :: "('v, 'w) ToolRegistry"
  max_rounds :: nat
  max_retries :: nat
  limit_answer :: jstring
  describe_error :: "error_kind \<Rightarrow> string \<Rightarrow> jstring"
  clock :: nat

text \<open>
  What a turn returns: its outcome, the final \<^verbatim>\<open>round_count\<close>, the number of LLM
  round-trips it made, the context window and the world it leaves.
\<close>

record ('v, 'w) turn_result =
  outcome :: turn_outcome
  round_count :: nat
  llm_calls :: nat
  window :: "'v ContextWindow"
  world_after :: 'w

text \<open>
  Modelled from the spec: one call of the LLM by the missing AgentLoop, "retryable with
  bounded backoff for transient network/rate-limit errors; fatal for
  authentication/invalid-request errors". \<open>calls\<close> counts the round-trips of the turn made
  so far and \<open>retries\<close> the retries left. A transient failure is retried on the same
  snapshot while retries are left; a reply, a fatal failure, or a transient failure with
  no retry left is the result of the call. The counter of round-trips is returned with
  it. (The delays of the backoff are not modelled.)
\<close>

fun call_llm ::
  "('v, 'w) AgentLoop \<Rightarrow> 'v AgentMessage list \<Rightarrow> nat \<Rightarrow> nat
   \<Rightarrow> (llm_failure + 'v AgentMessage) \<times> nat" where
  "call_llm a h calls 0 = (chat a calls h, calls + 1)"
| "call_llm a h calls (Suc retries) =
     (case chat a calls h of
        Inl (Transient e) \<Rightarrow> call_llm a h (calls + 1) retries
      | Inl (Fatal e) \<Rightarrow> (Inl (Fatal e), calls + 1)
      | Inr reply \<Rightarrow> (Inr reply, calls + 1))"

text \<open>
  Modelled from the spec: the \<^verbatim>\<open>tool\<close> message the missing AgentLoop appends for one
  invocation. The registry's failures (\<^verbatim>\<open>UnknownTool\<close>, \<^verbatim>\<open>InvalidArguments\<close>) and the
  executor's failure are fed back to the LLM as a tool-error message; a failure of a
  collaborator is caught at the boundary where the loop calls it, so an exception leaving
  \<^verbatim>\<open>execute\<close> would become a tool-error message too.
\<close>

definition tool_message ::
  "('v, 'w) AgentLoop \<Rightarrow> 'v ToolInvocation \<Rightarrow> 'w \<Rightarrow> 'v AgentMessage \<times> 'w" where
  "tool_message a call world =
     (case execute (registry a) call world of
        (res, world') \<Rightarrow>
          (\<lparr>agent_role = Tool,
            agent_content =
              (case res of
                 Failed kind \<Rightarrow> describe_error a kind []
               | Propagated msg \<Rightarrow> describe_error a ToolExecutionError msg
               | Wrapped r \<Rightarrow>
                   (case result_output r of
                      Some out \<Rightarrow> out
                    | None \<Rightarrow>
                        (case result_error r of
                           Some (kind, msg) \<Rightarrow> describe_error a kind msg
                         | None \<Rightarrow> []))),
            tool_calls = [],
            tool_call_id = Some (inv_id call),
            created_at = clock a\<rparr>, world'))"

text \<open>
  Modelled from the spec: the state Finalizing of the missing AgentLoop, which appends the
  final assistant message to the context window.
\<close>

definition finalize :: "('v, 'w) AgentLoop \<Rightarrow> jstring \<Rightarrow> 'v ContextWindow \<Rightarrow> 'v ContextWindow" where
  "finalize a answer w =
     fst (cw_append \<lparr>agent_role = Assistant, agent_content = answer, tool_calls = [],
                     tool_call_id = None, created_at = clock a\<rparr> w)"

text \<open>
  Modelled from the spec: a tool round of the missing AgentLoop. The assistant message
  with its tool calls is appended; each invocation is executed through the registry, one
  after the other, and one \<^verbatim>\<open>tool\<close> message per result is appended, in invocation order.
\<close>

definition tool_round ::
  "('v, 'w) AgentLoop \<Rightarrow> 'v AgentMessage \<Rightarrow> 'v ContextWindow \<times> 'w \<Rightarrow> 'v ContextWindow \<times> 'w" where
  "tool_round a reply ww =
     foldl (\<lambda>(w', world') call.
              case tool_message a call world' of
                (m, world'') \<Rightarrow> (fst (cw_append m w'), world''))
       (fst (cw_append reply (fst ww)), snd ww)
       (tool_calls reply)"

text \<open>
  Modelled from the spec: the rounds of a turn of the missing AgentLoop, from
  \<^verbatim>\<open>CallingLLM\<close> on. \<open>n\<close> is \<^verbatim>\<open>round_count\<close> and \<open>calls\<close> counts the LLM round-trips made so
  far. A provider failure that the retries did not cure ends the turn. A reply without
  tool calls is the final answer. A reply with tool calls starts a tool round, after which
  \<^verbatim>\<open>round_count\<close> is incremented; if it then exceeds the configured maximum the turn
  ends with the degraded answer, otherwise the loop calls the LLM again with the updated
  snapshot.
\<close>

function rounds ::
  "('v, 'w) AgentLoop \<Rightarrow> 'v ContextWindow \<times> 'w \<Rightarrow> nat \<Rightarrow> nat \<Rightarrow> ('v, 'w) turn_result" where
  "rounds a ww n calls =
     (case call_llm a (snapshot (fst ww)) calls (max_retries a) of
        (Inl failure, calls') \<Rightarrow>
          \<lparr>outcome = LLMProviderError failure, round_count = n, llm_calls = calls',
           window = fst ww, world_after = snd ww\<rparr>
      | (Inr reply, calls') \<Rightarrow>
          if tool_calls reply = []
          then \<lparr>outcome = FinalAnswer (agent_content reply), round_count = n,
                llm_calls = calls', window = finalize a (agent_content reply) (fst ww),
                world_after = snd ww\<rparr>
          else
            (let ww' = tool_round a reply ww;
                 n' = n + 1
             in if max_rounds a < n'
                then \<lparr>outcome = ToolLoopExceeded (limit_answer a), round_count = n',
                      llm_calls = calls', window = finalize a (limit_answer a) (fst ww'),
                      world_after = snd ww'\<rparr>
                else rounds a ww' n' calls'))"
  by pat_completeness auto
termination rounds
  by (relation "measure (\<lambda>(a, ww, n, calls). max_rounds a + 1 - n)") auto

declare rounds.simps [simp del]

text \<open>
  Modelled from the spec: a user turn of the missing AgentLoop that is no command.
  \<^verbatim>\<open>round_count\<close> is reset to zero, the user's message (with its memory block) is
  appended, and the rounds run.
\<close>

definition run_turn ::
  "('v, 'w) AgentLoop \<Rightarrow> 'v AgentMessage \<Rightarrow> 'v ContextWindow \<times> 'w \<Rightarrow> ('v, 'w) turn_result" where
  "run_turn a user_message ww = rounds a (fst (cw_append user_message (fst ww)), snd ww) 0 0"

text \<open>
  Stubs for runs, with a maximum of two rounds. The LLM of \<open>always_tool\<close> always requests
  another call of a tool nobody registered, and no call is retried. The LLM of
  \<open>flaky_tool\<close> does the same on every second round-trip and reports a rate limit on the
  others; one retry is configured.
\<close>

definition ls_request :: "unit AgentMessage" where
  "ls_request =
     \<lparr>agent_role = Assistant, agent_content = [],
      tool_calls = [\<lparr>inv_id = ''1'', inv_name = ''ls'', arguments = Map.empty\<rparr>],
      tool_call_id = None, created_at = 0\<rparr>"

definition always_tool :: "(unit, unit) AgentLoop" where
  "always_tool =
     \<lparr>chat = (\<lambda>k h. Inr ls_request),
      registry = \<lparr>tools = Map.empty, coercible = (\<lambda>ty v. True)\<rparr>,
      max_rounds = 2,
      max_retries = 0,
      limit_answer = ascii ''Tool round limit reached.'',
      describe_error = (\<lambda>kind msg. ascii msg),
      clock = 0\<rparr>"

definition flaky_tool :: "(unit, unit) AgentLoop" where
  "flaky_tool =
     always_tool
       \<lparr>chat := (\<lambda>k h. if even k then Inl (Transient ''rate limit'') else Inr ls_request),
        max_retries := 1\<rparr>"

section \<open>Properties of InputBar.tsx\<close>

lemma dropWhile_all_Nil:
  "list_all P xs \<Longrightarrow> dropWhile P xs = []"
  by (induction xs) auto

lemma dropWhile_Nil_all:
  "dropWhile P xs = [] \<Longrightarrow> list_all P xs"
  by (induction xs) (auto split: if_splits)

lemma dropWhile_head_fails:
  "dropWhile P xs = y # ys \<Longrightarrow> \<not> P y"
  by (induction xs) (auto split: if_splits)

lemma js_trim_white_only:
  "list_all js_white_space s \<Longrightarrow> js_trim s = []"
  by (simp add: js_trim_def dropWhile_all_Nil)

lemma js_trim_empty_iff:
  "js_trim s = [] \<longleftrightarrow> list_all js_white_space s"
proof
  assume "js_trim s = []"
  then have "dropWhile js_white_space (rev (dropWhile js_white_space s)) = []"
    by (simp add: js_trim_def)
  then have "list_all js_white_space (rev (dropWhile js_white_space s))"
    by (rule dropWhile_Nil_all)
  then have all: "list_all js_white_space (dropWhile js_white_space s)"
    by (simp add: list_all_iff)
  have "dropWhile js_white_space s = []"
  proof (cases "dropWhile js_white_space s")
    case Nil
    then show ?thesis .
  next
    case (Cons c cs)
    then have "\<not> js_white_space c"
      by (rule dropWhile_head_fails)
    with all Cons show ?thesis by simp
  qed
  then show "list_all js_white_space s"
    by (rule dropWhile_Nil_all)
next
  assume "list_all js_white_space s"
  then show "js_trim s = []"
    by (rule js_trim_white_only)
qed

text \<open>
  C9. A send, that is a call of \<^verbatim>\<open>handleSend\<close> (the button's click handler) or Enter
  without Shift in \<^verbatim>\<open>handleKeyDown\<close>, calls \<^verbatim>\<open>onSend\<close> if and only if the trimmed input
  is not empty and the bar is not disabled. When it does, \<^verbatim>\<open>onSend\<close> receives the trimmed
  text, once, and the input becomes the empty string; when it does not, nothing changes.
  The trimmed input is empty exactly when the input is white space only, so such an input
  is never sent.
\<close>

theorem InputBar_send_iff_trimmed_nonempty_enabled:
  "(onSend_calls (InputBar_handleSend disabled s) \<noteq> onSend_calls s
      \<longleftrightarrow> js_trim (input s) \<noteq> [] \<and> \<not> disabled)
   \<and> (js_trim (input s) \<noteq> [] \<and> \<not> disabled \<longrightarrow>
        onSend_calls (InputBar_handleSend disabled s) = onSend_calls s @ [js_trim (input s)]
        \<and> input (InputBar_handleSend disabled s) = [])
   \<and> (\<not> (js_trim (input s) \<noteq> [] \<and> \<not> disabled) \<longrightarrow> InputBar_handleSend disabled s = s)
   \<and> (key e = ''Enter'' \<and> \<not> shiftKey e \<longrightarrow>
        handleKeyDown disabled e s = InputBar_handleSend disabled s)
   \<and> (list_all js_white_space (input s) \<longrightarrow>
        onSend_calls (InputBar_handleSend disabled s) = onSend_calls s
        \<and> onSend_calls (handleKeyDown disabled e s) = onSend_calls s)
   \<and> (js_trim (input s) = [] \<longleftrightarrow> list_all js_white_space (input s))"
  by (simp add: InputBar_handleSend_def handleKeyDown_def truthy_def Let_def js_trim_white_only
        js_trim_empty_iff)

theorem InputBar_send_witness:
  "js_trim (input \<lparr>input = ascii ''  hi '', onSend_calls = []\<rparr>) \<noteq> [] \<and> \<not> False
   \<and> onSend_calls (InputBar_handleSend False \<lparr>input = ascii ''  hi '', onSend_calls = []\<rparr>)
       = [ascii ''hi'']
   \<and> input (InputBar_handleSend False \<lparr>input = ascii ''  hi '', onSend_calls = []\<rparr>) = []
   \<and> list_all js_white_space (input \<lparr>input = ascii ''   '', onSend_calls = []\<rparr>)
   \<and> onSend_calls (InputBar_handleSend False \<lparr>input = ascii ''   '', onSend_calls = []\<rparr>) = []"
proof -
  have trim: "js_trim (ascii ''  hi '') = ascii ''hi''"
    by (simp add: js_trim_def js_white_space_def ascii_def)
  have white: "list_all js_white_space (ascii ''   '')"
    by (simp add: js_white_space_def ascii_def)
  have ne: "ascii ''hi'' \<noteq> []"
    by (simp add: ascii_def)
  show ?thesis
    using InputBar_send_iff_trimmed_nonempty_enabled
            [of False "\<lparr>input = ascii ''  hi '', onSend_calls = []\<rparr>"]
          InputBar_send_iff_trimmed_nonempty_enabled
            [of False "\<lparr>input = ascii ''   '', onSend_calls = []\<rparr>"]
          trim white ne
    by simp
qed


section \<open>Properties of App.tsx\<close>

lemma text_truthy:
  "lastResponse_text r \<noteq> [] \<Longrightarrow> js_truthy r"
  by (cases r) (simp_all add: lastResponse_text_def)

lemma preview_text:
  "preview_throws r \<Longrightarrow> lastResponse_text r = []"
  by (cases r) (auto simp: preview_throws_def lastResponse_text_def split: option.splits json.splits)

lemma onResponse_skip:
  "lastResponse_text r = [] \<or> processedResponseRef s = Some (lastResponse_text r) \<Longrightarrow>
   App_onResponse now date (Some r) s = s"
  by (auto simp: App_onResponse_def truthy_def)

lemma onResponse_append:
  "lastResponse_text r \<noteq> [] \<Longrightarrow> processedResponseRef s \<noteq> Some (lastResponse_text r) \<Longrightarrow>
   messages (App_onResponse now date (Some r) s) =
     messages s @ [\<lparr>msg_id = (''nemo'', now), msg_role = nemo, content = lastResponse_text r,
                    timestamp = date\<rparr>]
   \<and> processedResponseRef (App_onResponse now date (Some r) s) = Some (lastResponse_text r)"
  by (simp add: App_onResponse_def truthy_def Let_def text_truthy split: option.splits)

lemma onmessage_stores:
  "\<not> preview_throws frame \<Longrightarrow> lastResponse (onmessage frame sock) = Some frame"
  by (simp add: onmessage_def Let_def split: option.splits)

lemma receive_skip:
  assumes "lastResponse_text frame = [] \<or> processedResponseRef s = Some (lastResponse_text frame)"
  shows "App_receive now date frame s = s\<lparr>socket := onmessage frame (socket s)\<rparr>"
proof (cases "preview_throws frame")
  case True
  then show ?thesis
    by (simp add: App_receive_def Let_def)
next
  case False
  from assms have "App_onResponse now date (Some frame) (s\<lparr>socket := onmessage frame (socket s)\<rparr>)
      = s\<lparr>socket := onmessage frame (socket s)\<rparr>"
    by (intro onResponse_skip) simp
  with False show ?thesis
    by (simp add: App_receive_def Let_def onmessage_stores)
qed

lemma receive_append:
  assumes "lastResponse_text frame \<noteq> []"
    and "processedResponseRef s \<noteq> Some (lastResponse_text frame)"
  shows "messages (App_receive now date frame s) =
     messages s @ [\<lparr>msg_id = (''nemo'', now), msg_role = nemo, content = lastResponse_text frame,
                    timestamp = date\<rparr>]
   \<and> processedResponseRef (App_receive now date frame s) = Some (lastResponse_text frame)"
proof -
  from assms(1) have p: "\<not> preview_throws frame"
    using preview_text by blast
  from assms onResponse_append
         [of frame "s\<lparr>socket := onmessage frame (socket s)\<rparr>" now date]
  show ?thesis
    using p by (simp add: App_receive_def Let_def onmessage_stores)
qed

lemma receive_ref:
  "processedResponseRef (App_receive now date frame s) =
     (if lastResponse_text frame = [] then processedResponseRef s
      else Some (lastResponse_text frame))"
  by (cases "processedResponseRef s = Some (lastResponse_text frame)")
     (simp_all add: receive_skip receive_append)

lemma responses_ref:
  "processedResponseRef (App_responses rs s) =
     (case last_nonempty_text (map (\<lambda>(now, date, r). r) rs) of
        Some t \<Rightarrow> Some t
      | None \<Rightarrow> processedResponseRef s)"
proof (induction rs arbitrary: s)
  case Nil
  show ?case by simp
next
  case (Cons x rs)
  obtain now date r where x: "x = (now, date, r)" by (cases x)
  show ?case
    unfolding x by (simp add: Cons.IH receive_ref split: option.splits)
qed

text \<open>
  C8, as the code has it. \<^verbatim>\<open>processedResponseRef\<close> holds the text of the most recent
  earlier response whose text was not empty. A response whose text is empty, or equal to
  that text, appends no message and plays no audio. Any other response appends exactly one
  message of role \<^verbatim>\<open>nemo\<close> with its text and records the text. So of two consecutive
  responses with the same text the second adds nothing: together they add at most one
  entry.
\<close>

theorem App_onResponse_dedup:
  "processedResponseRef (App_responses rs s0) =
     (case last_nonempty_text (map (\<lambda>(now, date, r). r) rs) of
        Some t \<Rightarrow> Some t
      | None \<Rightarrow> processedResponseRef s0)
   \<and> (lastResponse_text r = [] \<or> processedResponseRef s = Some (lastResponse_text r) \<longrightarrow>
      messages (App_receive now date r s) = messages s
      \<and> played (App_receive now date r s) = played s
      \<and> processedResponseRef (App_receive now date r s) = processedResponseRef s)
   \<and> (lastResponse_text r \<noteq> [] \<and> processedResponseRef s \<noteq> Some (lastResponse_text r) \<longrightarrow>
      messages (App_receive now date r s) =
        messages s @ [\<lparr>msg_id = (''nemo'', now), msg_role = nemo, content = lastResponse_text r,
                       timestamp = date\<rparr>]
      \<and> processedResponseRef (App_receive now date r s) = Some (lastResponse_text r))
   \<and> (lastResponse_text r' = lastResponse_text r \<longrightarrow>
      messages (App_receive now' date' r' (App_receive now date r s))
        = messages (App_receive now date r s)
      \<and> played (App_receive now' date' r' (App_receive now date r s))
        = played (App_receive now date r s)
      \<and> length (messages (App_receive now' date' r' (App_receive now date r s)))
        \<le> Suc (length (messages s)))"
proof (intro conjI impI)
  show "processedResponseRef (App_responses rs s0) =
     (case last_nonempty_text (map (\<lambda>(now, date, r). r) rs) of
        Some t \<Rightarrow> Some t
      | None \<Rightarrow> processedResponseRef s0)"
    by (rule responses_ref)
next
  assume eq: "lastResponse_text r' = lastResponse_text r"
  let ?s = "App_receive now date r s"
  have "lastResponse_text r' = [] \<or> processedResponseRef ?s = Some (lastResponse_text r')"
    using eq by (simp add: receive_ref)
  then have second: "App_receive now' date' r' ?s = ?s\<lparr>socket := onmessage r' (socket ?s)\<rparr>"
    by (rule receive_skip)
  show "messages (App_receive now' date' r' ?s) = messages ?s"
    and "played (App_receive now' date' r' ?s) = played ?s"
    by (simp_all add: second)
  have "length (messages ?s) \<le> Suc (length (messages s))"
    by (cases "lastResponse_text r = [] \<or> processedResponseRef s = Some (lastResponse_text r)")
       (auto simp: receive_skip receive_append)
  then show "length (messages (App_receive now' date' r' ?s)) \<le> Suc (length (messages s))"
    by (simp add: second)
qed (auto simp: receive_skip receive_append)

lemma response_texts:
  "lastResponse_text response_a = ascii ''ok''" "lastResponse_text response_error = []"
  by (simp_all add: lastResponse_text_def response_a_def response_error_def member_def)

text \<open>
  The claim as stated fails when a response with an empty text comes between two equal
  answers: the third response has a text that is not empty and differs from the text of
  the response before it, and yet no message is appended for it.
\<close>

theorem App_onResponse_counterexample:
  "lastResponse_text response_a \<noteq> []
   \<and> lastResponse_text response_a \<noteq> lastResponse_text response_error
   \<and> map content (messages (App_responses [(2, 3, response_a), (4, 5, response_error)] App_initial))
       = [ascii ''ok'']
   \<and> map content (messages (App_responses
         [(2, 3, response_a), (4, 5, response_error), (6, 7, response_a)] App_initial))
       = [ascii ''ok'']"
proof -
  have ne: "ascii ''ok'' \<noteq> []" by (simp add: ascii_def)
  have i: "processedResponseRef App_initial = None" "messages App_initial = []"
    by (simp_all add: App_initial_def)
  let ?s1 = "App_receive 2 3 response_a App_initial"
  let ?s2 = "App_receive 4 5 response_error ?s1"
  let ?s3 = "App_receive 6 7 response_a ?s2"
  have m1: "map content (messages ?s1) = [ascii ''ok'']"
    and r1: "processedResponseRef ?s1 = Some (ascii ''ok'')"
    using ne i by (simp_all add: receive_append response_texts)
  have s2: "messages ?s2 = messages ?s1" "processedResponseRef ?s2 = processedResponseRef ?s1"
    by (simp_all add: receive_skip response_texts)
  have s3: "messages ?s3 = messages ?s2"
    by (simp add: receive_skip response_texts s2 r1)
  from ne m1 s2 s3 show ?thesis
    by (simp add: response_texts)
qed

theorem App_onResponse_dedup_witness:
  "lastResponse_text response_a \<noteq> []
   \<and> processedResponseRef App_initial \<noteq> Some (lastResponse_text response_a)
   \<and> map content (messages (App_receive 7 8 response_a App_initial)) = [ascii ''ok'']
   \<and> lastResponse_text response_a = lastResponse_text response_a
   \<and> map content (messages (App_receive 9 10 response_a
         (App_receive 7 8 response_a App_initial))) = [ascii ''ok'']
   \<and> lastResponse_text response_error = []
   \<and> messages (App_receive 11 12 response_error App_initial) = messages App_initial"
proof -
  have ne: "ascii ''ok'' \<noteq> []"
    by (simp add: ascii_def)
  have i: "processedResponseRef App_initial = None" "messages App_initial = []"
    by (simp_all add: App_initial_def)
  show ?thesis
    using App_onResponse_dedup [of "[]" App_initial response_a App_initial 7 8 response_a 9 10]
          App_onResponse_dedup [of "[]" App_initial response_error App_initial 11 12]
          ne i response_texts
    by simp
qed

section \<open>Properties of hooks/useNemoSocket.ts\<close>

lemma disconnection_retry:
  "reconnectAttemptsRef s < MAX_RECONNECT_ATTEMPTS \<Longrightarrow>
   disconnection s =
     s\<lparr>isConnected := False, isConnecting := True, error := None, wsRef := Some CONNECTING,
       reconnectAttemptsRef := reconnectAttemptsRef s + 1, reconnectTimeoutRef := None,
       timeouts := timeouts s @ [RECONNECT_DELAY]\<rparr>"
  by (simp add: disconnection_def onclose_def timer_fires_def connect_def Let_def)

lemma disconnection_give_up:
  "\<not> reconnectAttemptsRef s < MAX_RECONNECT_ATTEMPTS \<Longrightarrow> reconnectTimeoutRef s = None \<Longrightarrow>
   disconnection s =
     s\<lparr>isConnected := False, isConnecting := False, wsRef := Some CLOSED,
       error := Some unable_to_connect\<rparr>"
  by (simp add: disconnection_def onclose_def timer_fires_def Let_def)

lemma disconnections_timeouts:
  "reconnectAttemptsRef s \<le> MAX_RECONNECT_ATTEMPTS \<Longrightarrow> reconnectTimeoutRef s = None \<Longrightarrow>
   timeouts (disconnections n s) =
     timeouts s @ replicate (min n (MAX_RECONNECT_ATTEMPTS - reconnectAttemptsRef s)) RECONNECT_DELAY
   \<and> reconnectAttemptsRef (disconnections n s) = min (reconnectAttemptsRef s + n) MAX_RECONNECT_ATTEMPTS
   \<and> reconnectTimeoutRef (disconnections n s) = None"
proof (induction n arbitrary: s)
  case 0
  then show ?case by simp
next
  case (Suc n)
  show ?case
  proof (cases "reconnectAttemptsRef s < MAX_RECONNECT_ATTEMPTS")
    case True
    let ?s = "disconnection s"
    have a: "reconnectAttemptsRef ?s = reconnectAttemptsRef s + 1"
      and t: "timeouts ?s = timeouts s @ [RECONNECT_DELAY]"
      and r: "reconnectTimeoutRef ?s = None"
      using True by (simp_all add: disconnection_retry)
    from True a have le: "reconnectAttemptsRef ?s \<le> MAX_RECONNECT_ATTEMPTS" by simp
    from True have m: "min (Suc n) (MAX_RECONNECT_ATTEMPTS - reconnectAttemptsRef s)
        = Suc (min n (MAX_RECONNECT_ATTEMPTS - (reconnectAttemptsRef s + 1)))"
      by (auto simp: min_def)
    show ?thesis
      using Suc.IH [OF le r] a t m by (simp add: replicate_append_same)
  next
    case False
    let ?s = "disconnection s"
    have a: "reconnectAttemptsRef ?s = reconnectAttemptsRef s"
      and t: "timeouts ?s = timeouts s"
      and r: "reconnectTimeoutRef ?s = None"
      using False Suc.prems by (simp_all add: disconnection_give_up)
    from Suc.prems a have le: "reconnectAttemptsRef ?s \<le> MAX_RECONNECT_ATTEMPTS" by simp
    from False Suc.prems have eq: "reconnectAttemptsRef s = MAX_RECONNECT_ATTEMPTS" by simp
    show ?thesis
      using Suc.IH [OF le r] a t eq by simp
  qed
qed

lemma socket_step_attempts:
  "reconnectAttemptsRef s \<le> MAX_RECONNECT_ATTEMPTS \<Longrightarrow>
   reconnectAttemptsRef (socket_step e s) \<le> MAX_RECONNECT_ATTEMPTS"
  by (cases e)
     (auto simp: onopen_def onclose_def onerror_def onmessage_def timer_fires_def connect_def
           Let_def split: option.splits)

lemma socket_run_attempts:
  "reconnectAttemptsRef s \<le> MAX_RECONNECT_ATTEMPTS \<Longrightarrow>
   reconnectAttemptsRef (socket_run es s) \<le> MAX_RECONNECT_ATTEMPTS"
  by (induction es arbitrary: s) (simp_all add: socket_step_attempts)

lemma socket_step_potential:
  "e \<noteq> Opened \<Longrightarrow> reconnectAttemptsRef s \<le> MAX_RECONNECT_ATTEMPTS \<Longrightarrow>
   \<exists>k. timeouts (socket_step e s) = timeouts s @ replicate k RECONNECT_DELAY
       \<and> reconnectAttemptsRef (socket_step e s) = reconnectAttemptsRef s + k"
proof (cases "e = Closed \<and> reconnectAttemptsRef s < MAX_RECONNECT_ATTEMPTS")
  case True
  then have "timeouts (socket_step e s) = timeouts s @ replicate 1 RECONNECT_DELAY
       \<and> reconnectAttemptsRef (socket_step e s) = reconnectAttemptsRef s + 1"
    by (simp add: onclose_def Let_def)
  then show ?thesis by blast
next
  case False
  assume "e \<noteq> Opened"
  with False have "timeouts (socket_step e s) = timeouts s @ replicate 0 RECONNECT_DELAY
       \<and> reconnectAttemptsRef (socket_step e s) = reconnectAttemptsRef s + 0"
    by (cases e)
       (auto simp: onclose_def onerror_def onmessage_def timer_fires_def connect_def Let_def
             split: option.splits)
  then show ?thesis by blast
qed

lemma socket_run_potential:
  "Opened \<notin> set es \<Longrightarrow> reconnectAttemptsRef s \<le> MAX_RECONNECT_ATTEMPTS \<Longrightarrow>
   \<exists>k. timeouts (socket_run es s) = timeouts s @ replicate k RECONNECT_DELAY
       \<and> reconnectAttemptsRef (socket_run es s) = reconnectAttemptsRef s + k
       \<and> reconnectAttemptsRef s + k \<le> MAX_RECONNECT_ATTEMPTS"
proof (induction es arbitrary: s)
  case Nil
  then have "timeouts (socket_run [] s) = timeouts s @ replicate 0 RECONNECT_DELAY
       \<and> reconnectAttemptsRef (socket_run [] s) = reconnectAttemptsRef s + 0
       \<and> reconnectAttemptsRef s + 0 \<le> MAX_RECONNECT_ATTEMPTS"
    by simp
  then show ?case by blast
next
  case (Cons e es)
  from Cons.prems have e: "e \<noteq> Opened" and es: "Opened \<notin> set es" by auto
  from socket_step_potential [OF e Cons.prems(2)] obtain j where
    j: "timeouts (socket_step e s) = timeouts s @ replicate j RECONNECT_DELAY"
       "reconnectAttemptsRef (socket_step e s) = reconnectAttemptsRef s + j"
    by blast
  have le: "reconnectAttemptsRef (socket_step e s) \<le> MAX_RECONNECT_ATTEMPTS"
    using Cons.prems(2) by (rule socket_step_attempts)
  from Cons.IH [OF es le] obtain k where
    k: "timeouts (socket_run es (socket_step e s))
          = timeouts (socket_step e s) @ replicate k RECONNECT_DELAY"
       "reconnectAttemptsRef (socket_run es (socket_step e s))
          = reconnectAttemptsRef (socket_step e s) + k"
       "reconnectAttemptsRef (socket_step e s) + k \<le> MAX_RECONNECT_ATTEMPTS"
    by blast
  from j k have "timeouts (socket_run (e # es) s) = timeouts s @ replicate (j + k) RECONNECT_DELAY
       \<and> reconnectAttemptsRef (socket_run (e # es) s) = reconnectAttemptsRef s + (j + k)
       \<and> reconnectAttemptsRef s + (j + k) \<le> MAX_RECONNECT_ATTEMPTS"
    by (simp add: replicate_add)
  then show ?case by blast
qed

lemma mounted:
  "reconnectAttemptsRef (connect True useNemoSocket_initial) = 0
   \<and> timeouts (connect True useNemoSocket_initial) = []
   \<and> reconnectTimeoutRef (connect True useNemoSocket_initial) = None
   \<and> error (connect True useNemoSocket_initial) = None"
  by (simp add: connect_def useNemoSocket_initial_def)

lemma disconnections_add:
  "disconnections (a + b) s = disconnections b (disconnections a s)"
  by (induction a arbitrary: s) simp_all

lemma disconnections_error_retrying:
  "reconnectAttemptsRef s + n \<le> MAX_RECONNECT_ATTEMPTS \<Longrightarrow>
   error (disconnections n s) = (if n = 0 then error s else None)"
proof (induction n arbitrary: s)
  case 0
  then show ?case by simp
next
  case (Suc n)
  then have lt: "reconnectAttemptsRef s < MAX_RECONNECT_ATTEMPTS" by simp
  let ?s = "disconnection s"
  have a: "reconnectAttemptsRef ?s = reconnectAttemptsRef s + 1" and e: "error ?s = None"
    using lt by (simp_all add: disconnection_retry)
  from Suc.prems a have "reconnectAttemptsRef ?s + n \<le> MAX_RECONNECT_ATTEMPTS" by simp
  from Suc.IH [OF this] e show ?case by simp
qed

lemma disconnections_error_given_up:
  "reconnectAttemptsRef s = MAX_RECONNECT_ATTEMPTS \<Longrightarrow> reconnectTimeoutRef s = None \<Longrightarrow>
   error (disconnections (Suc n) s) = Some unable_to_connect
   \<and> \<not> isConnecting (disconnections (Suc n) s)
   \<and> \<not> isConnected (disconnections (Suc n) s)"
proof (induction n arbitrary: s)
  case 0
  then show ?case by (simp add: disconnection_give_up)
next
  case (Suc n)
  let ?s = "disconnection s"
  have "reconnectAttemptsRef ?s = MAX_RECONNECT_ATTEMPTS" and "reconnectTimeoutRef ?s = None"
    using Suc.prems by (simp_all add: disconnection_give_up)
  from Suc.IH [OF this] show ?case by simp
qed

text \<open>
  C10, as the code has it. \<^verbatim>\<open>MAX_RECONNECT_ATTEMPTS\<close> is 5 and \<^verbatim>\<open>RECONNECT_DELAY\<close> is 3000.
  The count of attempts is zero when the hook has mounted and after every successful open,
  and it never passes 5, whatever the events. From any state the hook can be in, a sequence
  of events without a successful open (closes, errors, frames, timers) schedules only
  reconnections with the delay 3000, and no more of them than are left up to 5: at most
  five after the mount or an open. After \<open>n\<close> disconnections in a row from a state where the
  count is zero and no timer is pending, exactly \<open>min n 5\<close> have been scheduled and no timer
  is pending; up to the fifth the error state is clear, and from the sixth on (the fifth
  reconnection has failed) the hook has stopped retrying and the error state is the
  connection-failure message.
\<close>

theorem reconnect_attempts_bounded:
  "MAX_RECONNECT_ATTEMPTS = 5 \<and> RECONNECT_DELAY = 3000
   \<and> reconnectAttemptsRef (connect True useNemoSocket_initial) = 0
   \<and> reconnectTimeoutRef (connect True useNemoSocket_initial) = None
   \<and> reconnectAttemptsRef (socket_step Opened s) = 0
   \<and> reconnectAttemptsRef (socket_run es0 (connect True useNemoSocket_initial))
       \<le> MAX_RECONNECT_ATTEMPTS
   \<and> (reconnectAttemptsRef s \<le> MAX_RECONNECT_ATTEMPTS \<and> Opened \<notin> set es \<longrightarrow>
        (\<exists>k. timeouts (socket_run es s) = timeouts s @ replicate k RECONNECT_DELAY
             \<and> reconnectAttemptsRef s + k \<le> MAX_RECONNECT_ATTEMPTS))
   \<and> (reconnectAttemptsRef s = 0 \<and> reconnectTimeoutRef s = None \<longrightarrow>
        timeouts (disconnections n s)
          = timeouts s @ replicate (min n MAX_RECONNECT_ATTEMPTS) RECONNECT_DELAY
        \<and> reconnectTimeoutRef (disconnections n s) = None
        \<and> (0 < n \<and> n \<le> MAX_RECONNECT_ATTEMPTS \<longrightarrow> error (disconnections n s) = None)
        \<and> (MAX_RECONNECT_ATTEMPTS < n \<longrightarrow>
             error (disconnections n s) = Some unable_to_connect
             \<and> \<not> isConnecting (disconnections n s)))"
proof (intro conjI impI)
  show "reconnectAttemptsRef (socket_run es0 (connect True useNemoSocket_initial))
       \<le> MAX_RECONNECT_ATTEMPTS"
    by (rule socket_run_attempts) (simp add: mounted)
next
  assume "reconnectAttemptsRef s \<le> MAX_RECONNECT_ATTEMPTS \<and> Opened \<notin> set es"
  then have "Opened \<notin> set es" and "reconnectAttemptsRef s \<le> MAX_RECONNECT_ATTEMPTS"
    by simp_all
  from socket_run_potential [OF this]
  show "\<exists>k. timeouts (socket_run es s) = timeouts s @ replicate k RECONNECT_DELAY
             \<and> reconnectAttemptsRef s + k \<le> MAX_RECONNECT_ATTEMPTS"
    by blast
next
  assume h: "reconnectAttemptsRef s = 0 \<and> reconnectTimeoutRef s = None"
  then have le: "reconnectAttemptsRef s \<le> MAX_RECONNECT_ATTEMPTS"
    and r: "reconnectTimeoutRef s = None"
    by simp_all
  note d = disconnections_timeouts [OF le r, of n]
  show "timeouts (disconnections n s)
          = timeouts s @ replicate (min n MAX_RECONNECT_ATTEMPTS) RECONNECT_DELAY"
    and "reconnectTimeoutRef (disconnections n s) = None"
    using d h by simp_all
  {
    assume "0 < n \<and> n \<le> MAX_RECONNECT_ATTEMPTS"
    then show "error (disconnections n s) = None"
      using disconnections_error_retrying [of s n] h by simp
  }
  {
    assume "MAX_RECONNECT_ATTEMPTS < n"
    then obtain m where n: "n = MAX_RECONNECT_ATTEMPTS + Suc m"
      by (metis less_imp_Suc_add add_Suc_right)
    let ?s = "disconnections MAX_RECONNECT_ATTEMPTS s"
    have "reconnectAttemptsRef ?s = MAX_RECONNECT_ATTEMPTS" and "reconnectTimeoutRef ?s = None"
      using disconnections_timeouts [OF le r, of MAX_RECONNECT_ATTEMPTS] h by simp_all
    from disconnections_error_given_up [OF this, of m]
    show "error (disconnections n s) = Some unable_to_connect"
      and "\<not> isConnecting (disconnections n s)"
      unfolding n disconnections_add by simp_all
  }
qed (simp_all add: MAX_RECONNECT_ATTEMPTS_def RECONNECT_DELAY_def mounted onopen_def)

text \<open>
  The claim as stated fails for disconnections with successful reconnections in between:
  the count starts again at every open, so a sixth reconnection is scheduled, no error is
  set, and the reconnecting goes on for as long as the server keeps dropping the socket.
\<close>

theorem reconnect_counterexample:
  "length (timeouts (socket_run flapping (connect True useNemoSocket_initial))) = 6
   \<and> error (socket_run flapping (connect True useNemoSocket_initial)) = None
   \<and> isConnected (socket_run flapping (connect True useNemoSocket_initial))"
  by (simp add: flapping_def numeral_eq_Suc onclose_def timer_fires_def connect_def onopen_def
        Let_def useNemoSocket_initial_def MAX_RECONNECT_ATTEMPTS_def)

theorem reconnect_attempts_bounded_witness:
  "reconnectAttemptsRef (socket_run flapping (connect True useNemoSocket_initial)) \<le> 5
   \<and> Opened \<notin> set [Closed, TimerFired True, Errored, Closed]
   \<and> (\<exists>k \<le> 5. timeouts (socket_run [Closed, TimerFired True, Errored, Closed]
          (socket_run flapping (connect True useNemoSocket_initial)))
        = timeouts (socket_run flapping (connect True useNemoSocket_initial)) @ replicate k 3000)
   \<and> reconnectAttemptsRef (onopen (connect True useNemoSocket_initial)) = 0
   \<and> reconnectTimeoutRef (onopen (connect True useNemoSocket_initial)) = None
   \<and> timeouts (disconnections 7 (onopen (connect True useNemoSocket_initial))) = replicate 5 3000
   \<and> (5::nat) < 7
   \<and> error (disconnections 7 (onopen (connect True useNemoSocket_initial)))
       = Some unable_to_connect"
proof -
  let ?s = "socket_run flapping (connect True useNemoSocket_initial)"
  let ?o = "onopen (connect True useNemoSocket_initial)"
  note a = reconnect_attempts_bounded
             [of ?s flapping "[Closed, TimerFired True, Errored, Closed]" 7]
  note b = reconnect_attempts_bounded [of ?o "[]" "[]" 7]
  have o: "reconnectAttemptsRef ?o = 0" "reconnectTimeoutRef ?o = None" "timeouts ?o = []"
    by (simp_all add: onopen_def connect_def useNemoSocket_initial_def)
  from a have le: "reconnectAttemptsRef ?s \<le> 5" by simp
  with a have "\<exists>k. timeouts (socket_run [Closed, TimerFired True, Errored, Closed] ?s)
        = timeouts ?s @ replicate k 3000 \<and> reconnectAttemptsRef ?s + k \<le> 5"
    by simp
  then have k: "\<exists>k \<le> 5. timeouts (socket_run [Closed, TimerFired True, Errored, Closed] ?s)
        = timeouts ?s @ replicate k 3000"
    by auto
  from b o have "timeouts (disconnections 7 ?o) = replicate 5 3000"
    and "error (disconnections 7 ?o) = Some unable_to_connect"
    by simp_all
  with le k o show ?thesis by simp
qed

section \<open>Properties of a turn\<close>

lemma subscript_text_frame:
  "py_subscript (JObject [(''text'', v)]) ''text'' = Inr v"
  by (simp add: py_subscript_def member_def)

lemma talk_turn_cases:
  "talk_turn sv (JObject [(''text'', v)]) =
     (case get_context sv v of
        Inl e \<Rightarrow> Inl e
      | Inr past_context \<Rightarrow>
          (case llm_generate sv v (system_prompt past_context) of
             Inl e \<Rightarrow> Inl e
           | Inr response_text \<Rightarrow>
               (case tts_synthesize sv response_text of
                  Inl e \<Rightarrow> Inl e
                | Inr a \<Rightarrow>
                    Inr (JObject [(''audio'', JString a), (''text'', JString response_text),
                                  (''visemes'', JArray [])],
                         (v, response_text)))))"
  by (simp add: talk_turn_def subscript_text_frame)

lemma talk_turn_frame:
  "talk_turn sv data = Inr (frame, task) \<Longrightarrow>
   \<exists>a response_text. frame = JObject [(''audio'', JString a), (''text'', JString response_text),
                                        (''visemes'', JArray [])]
                        \<and> snd task = response_text"
  by (auto simp: talk_turn_def split: sum.splits)

lemma parse_server_frame:
  "parse_NemoResponse (JObject [(''audio'', JString a), (''text'', JString r), (''visemes'', JArray [])])
     = Some \<lparr>resp_text = r, audio = a, visemes = [], resp_error = None\<rparr>"
  by (simp add: parse_NemoResponse_def member_def)

lemma server_frame_read:
  "\<not> preview_throws (JObject [(''audio'', JString a), (''text'', JString r), (''visemes'', JArray [])])"
  "js_get (JObject [(''audio'', JString a), (''text'', JString r), (''visemes'', JArray [])]) ''error''
     = None"
  "lastResponse_text (JObject [(''audio'', JString a), (''text'', JString r), (''visemes'', JArray [])])
     = r"
  by (simp_all add: preview_throws_def lastResponse_text_def member_def)

lemma App_receive_server_frame:
  "App_receive now date (JObject [(''audio'', JString a), (''text'', JString r), (''visemes'', JArray [])]) s
     = App_onResponse now date
         (Some (JObject [(''audio'', JString a), (''text'', JString r), (''visemes'', JArray [])]))
         (s\<lparr>socket := (socket s)\<lparr>lastResponse :=
               Some (JObject [(''audio'', JString a), (''text'', JString r),
                              (''visemes'', JArray [])])\<rparr>\<rparr>)"
  by (simp add: App_receive_def preview_throws_def onmessage_def member_def Let_def)

lemma App_onResponse_messages:
  "messages (App_onResponse now date (Some r) s) =
     messages s @ (if lastResponse_text r \<noteq> [] \<and> processedResponseRef s \<noteq> Some (lastResponse_text r)
                   then [\<lparr>msg_id = (''nemo'', now), msg_role = nemo, content = lastResponse_text r,
                           timestamp = date\<rparr>]
                   else [])"
  by (auto simp: onResponse_skip onResponse_append)

lemma handleSend_messages:
  "messages (App_handleSend now date t s) =
     messages s @ [\<lparr>msg_id = (''user'', now), msg_role = user, content = t, timestamp = date\<rparr>]
   \<and> processedResponseRef (App_handleSend now date t s) = processedResponseRef s"
  by (simp add: App_handleSend_def Let_def)

lemma handleSend_wire:
  "wsRef (socket s) = Some OPEN \<Longrightarrow>
   wire (socket (App_handleSend now date t s)) = wire (socket s) @ [JObject [(''text'', JString t)]]"
  by (simp add: App_handleSend_def sendMessage_def Let_def)

text \<open>
  C1. In every turn the transcript gains the user's entry, whose content is exactly the
  text the user sent, and then at most one entry of \<^verbatim>\<open>nemo\<close>, whose content is exactly
  the text the LLM returned for that user text and the system prompt built from the
  recalled memories. The memory context reaches the LLM only (in this code inside the
  system prompt, next to the unchanged user text); the frame on the wire carries the
  user's text alone, and no entry of the transcript is built from the context.
\<close>

theorem transcript_hides_memory_context:
  "(\<exists>shown.
      messages (session_turn sv now date now' date' t s) =
        messages s @ [\<lparr>msg_id = (''user'', now), msg_role = user, content = t, timestamp = date\<rparr>]
        @ shown
      \<and> (shown = [] \<or>
          (\<exists>past_context response_text.
             get_context sv (JString t) = Inr past_context
             \<and> llm_generate sv (JString t) (system_prompt past_context) = Inr response_text
             \<and> shown = [\<lparr>msg_id = (''nemo'', now'), msg_role = nemo, content = response_text,
                          timestamp = date'\<rparr>])))
   \<and> (wsRef (socket s) = Some OPEN \<longrightarrow>
        wire (socket (App_handleSend now date t s)) = wire (socket s) @ [JObject [(''text'', JString t)]])
   \<and> (wsRef (socket s) = Some OPEN \<and> get_context sv (JString t) = Inr past_context
        \<and> llm_generate sv (JString t) (system_prompt past_context) = Inr response_text
        \<and> tts_synthesize sv response_text = Inr a
        \<and> response_text \<noteq> [] \<and> processedResponseRef s \<noteq> Some response_text \<longrightarrow>
        messages (session_turn sv now date now' date' t s) =
          messages s @ [\<lparr>msg_id = (''user'', now), msg_role = user, content = t, timestamp = date\<rparr>,
                        \<lparr>msg_id = (''nemo'', now'), msg_role = nemo, content = response_text,
                         timestamp = date'\<rparr>])"
proof (intro conjI impI)
  let ?u = "\<lparr>msg_id = (''user'', now), msg_role = user, content = t, timestamp = date\<rparr>"
  let ?s1 = "App_handleSend now date t s"
  show "\<exists>shown. messages (session_turn sv now date now' date' t s) = messages s @ [?u] @ shown
      \<and> (shown = [] \<or>
          (\<exists>past_context response_text.
             get_context sv (JString t) = Inr past_context
             \<and> llm_generate sv (JString t) (system_prompt past_context) = Inr response_text
             \<and> shown = [\<lparr>msg_id = (''nemo'', now'), msg_role = nemo, content = response_text,
                          timestamp = date'\<rparr>]))"
  proof (cases "wsRef (socket s) = Some OPEN")
    case False
    then have "session_turn sv now date now' date' t s = ?s1"
      by (simp add: session_turn_def Let_def)
    then show ?thesis
      by (simp add: handleSend_messages)
  next
    case True
    then have w: "last (wire (socket ?s1)) = JObject [(''text'', JString t)]"
      by (simp add: handleSend_wire)
    show ?thesis
    proof (cases "talk_turn sv (JObject [(''text'', JString t)])")
      case (Inl e)
      then have "session_turn sv now date now' date' t s = ?s1"
        using True w by (simp add: session_turn_def Let_def)
      then show ?thesis
        by (simp add: handleSend_messages)
    next
      case (Inr p)
      then obtain past_context response_text a where
        c: "get_context sv (JString t) = Inr past_context"
        and l: "llm_generate sv (JString t) (system_prompt past_context) = Inr response_text"
        and p: "p = (JObject [(''audio'', JString a), (''text'', JString response_text),
                              (''visemes'', JArray [])], (JString t, response_text))"
        by (auto simp: talk_turn_cases split: sum.splits)
      have "session_turn sv now date now' date' t s =
          App_receive now' date' (JObject [(''audio'', JString a), (''text'', JString response_text),
                              (''visemes'', JArray [])]) ?s1"
        using True w Inr p by (simp add: session_turn_def Let_def)
      then have "messages (session_turn sv now date now' date' t s) =
          messages s @ [?u] @
            (if response_text \<noteq> [] \<and> processedResponseRef s \<noteq> Some response_text
             then [\<lparr>msg_id = (''nemo'', now'), msg_role = nemo, content = response_text,
                          timestamp = date'\<rparr>] else [])"
        by (simp add: App_receive_server_frame App_onResponse_messages handleSend_messages
              server_frame_read)
      with c l show ?thesis by auto
    qed
  qed
next
  assume "wsRef (socket s) = Some OPEN"
  then show "wire (socket (App_handleSend now date t s)) = wire (socket s) @ [JObject [(''text'', JString t)]]"
    by (rule handleSend_wire)
next
  let ?s1 = "App_handleSend now date t s"
  assume h: "wsRef (socket s) = Some OPEN \<and> get_context sv (JString t) = Inr past_context
        \<and> llm_generate sv (JString t) (system_prompt past_context) = Inr response_text
        \<and> tts_synthesize sv response_text = Inr a
        \<and> response_text \<noteq> [] \<and> processedResponseRef s \<noteq> Some response_text"
  then have w: "last (wire (socket ?s1)) = JObject [(''text'', JString t)]"
    by (simp add: handleSend_wire)
  from h have "talk_turn sv (JObject [(''text'', JString t)]) =
      Inr (JObject [(''audio'', JString a), (''text'', JString response_text),
                    (''visemes'', JArray [])], (JString t, response_text))"
    by (simp add: talk_turn_cases)
  then have "session_turn sv now date now' date' t s =
          App_receive now' date' (JObject [(''audio'', JString a), (''text'', JString response_text),
                              (''visemes'', JArray [])]) ?s1"
    using h w by (simp add: session_turn_def Let_def)
  then show "messages (session_turn sv now date now' date' t s) =
          messages s @ [\<lparr>msg_id = (''user'', now), msg_role = user, content = t, timestamp = date\<rparr>,
                        \<lparr>msg_id = (''nemo'', now'), msg_role = nemo, content = response_text,
                         timestamp = date'\<rparr>]"
    using h by (simp add: App_receive_server_frame App_onResponse_messages handleSend_messages
          server_frame_read)
qed

lemma get_context_recall:
  "get_context services_recall v = Inr (ascii ''deadline is Friday'')"
  by (simp add: get_context_def py_join_def services_recall_def py_subscript_def member_def)

theorem transcript_hides_memory_context_witness:
  "wsRef (socket App_connected) = Some OPEN
   \<and> get_context services_recall (JString (ascii ''When is my deadline?'')) = Inr (ascii ''deadline is Friday'')
   \<and> llm_generate services_recall (JString (ascii ''When is my deadline?''))
        (system_prompt (ascii ''deadline is Friday'')) = Inr (ascii ''It is Friday.'')
   \<and> tts_synthesize services_recall (ascii ''It is Friday.'') = Inr []
   \<and> ascii ''It is Friday.'' \<noteq> []
   \<and> processedResponseRef App_connected \<noteq> Some (ascii ''It is Friday.'')
   \<and> map content (messages (session_turn services_recall 1 2 3 4 (ascii ''When is my deadline?'')
        App_connected)) = [ascii ''When is my deadline?'', ascii ''It is Friday.'']"
proof -
  have o: "wsRef (socket App_connected) = Some OPEN"
    and r: "processedResponseRef App_connected = None"
    and m: "messages App_connected = []"
    by (simp_all add: App_connected_def App_initial_def onopen_def)
  have l: "llm_generate services_recall (JString (ascii ''When is my deadline?''))
        (system_prompt (ascii ''deadline is Friday'')) = Inr (ascii ''It is Friday.'')"
    and s: "tts_synthesize services_recall (ascii ''It is Friday.'') = Inr []"
    by (simp_all add: services_recall_def)
  have ne: "ascii ''It is Friday.'' \<noteq> []"
    by (simp add: ascii_def)
  show ?thesis
    using transcript_hides_memory_context
            [of services_recall 1 2 3 4 "ascii ''When is my deadline?''" App_connected
                "ascii ''deadline is Friday''" "ascii ''It is Friday.''" "[]"]
          o r m l s ne get_context_recall [of "JString (ascii ''When is my deadline?'')"]
    by simp
qed

section \<open>Properties of the backend\<close>

text \<open>
  C4, as the code has it. \<^verbatim>\<open>get_context\<close> has no handler: when the memory store's search
  raises, \<^verbatim>\<open>get_context\<close> raises the same exception, the iteration sends no frame, and the
  endpoint's \<^verbatim>\<open>except Exception\<close> prints the exception and ends the loop. A search that
  finds nothing gives the empty context. Whenever the context is retrieved and the LLM
  and the speech synthesis return, the turn sends its answer.
\<close>

theorem memory_failure_ends_turn:
  "(m_search sv v = Inl e \<longrightarrow>
      get_context sv v = Inl e
      \<and> talk_turn sv (JObject [(''text'', v)]) = Inl e
      \<and> websocket_endpoint sv (JObject [(''text'', v)] # frames) tr
          = tr\<lparr>printed := printed tr @ [e]\<rparr>)
   \<and> (m_search sv v = Inr [] \<longrightarrow> get_context sv v = Inr [])
   \<and> (get_context sv v = Inr past_context
        \<and> llm_generate sv v (system_prompt past_context) = Inr response_text
        \<and> tts_synthesize sv response_text = Inr a \<longrightarrow>
        sent (websocket_endpoint sv [JObject [(''text'', v)]] no_trace)
          = [JObject [(''audio'', JString a), (''text'', JString response_text),
                      (''visemes'', JArray [])]])"
  by (simp add: get_context_def py_join_def talk_turn_cases no_trace_def)

text \<open>
  The claim as stated fails when the memory store times out: retrieval does not return
  the empty string and the turn sends no answer.
\<close>

theorem memory_failure_counterexample:
  "get_context services_memory_down (JString (ascii ''hi'')) = Inl (ProviderError ''timeout'')
   \<and> sent (websocket_endpoint services_memory_down [JObject [(''text'', JString (ascii ''hi''))]]
             no_trace) = []
   \<and> printed (websocket_endpoint services_memory_down [JObject [(''text'', JString (ascii ''hi''))]]
                no_trace) = [ProviderError ''timeout'']"
  by (simp add: get_context_def py_join_def talk_turn_cases no_trace_def services_memory_down_def)

theorem memory_failure_ends_turn_witness:
  "m_search services_memory_down (JString (ascii ''hi'')) = Inl (ProviderError ''timeout'')
   \<and> talk_turn services_memory_down (JObject [(''text'', JString (ascii ''hi''))])
       = Inl (ProviderError ''timeout'')
   \<and> m_search services_echo (JString (ascii ''hi'')) = Inr []
   \<and> get_context services_echo (JString (ascii ''hi'')) = Inr []
   \<and> llm_generate services_echo (JString (ascii ''hi'')) (system_prompt []) = Inr (ascii ''hi'')
   \<and> tts_synthesize services_echo (ascii ''hi'') = Inr []
   \<and> sent (websocket_endpoint services_echo [JObject [(''text'', JString (ascii ''hi''))]] no_trace)
       = [JObject [(''audio'', JString []), (''text'', JString (ascii ''hi'')),
                   (''visemes'', JArray [])]]"
proof -
  have d: "m_search services_memory_down (JString (ascii ''hi'')) = Inl (ProviderError ''timeout'')"
    by (simp add: services_memory_down_def)
  have e: "m_search services_echo (JString (ascii ''hi'')) = Inr []"
    and l: "llm_generate services_echo (JString (ascii ''hi'')) (system_prompt []) = Inr (ascii ''hi'')"
    and s: "tts_synthesize services_echo (ascii ''hi'') = Inr []"
    by (simp_all add: services_echo_def)
  show ?thesis
    using memory_failure_ends_turn
            [of services_memory_down "JString (ascii ''hi'')" "ProviderError ''timeout''" "[]" no_trace]
          memory_failure_ends_turn
            [of services_echo "JString (ascii ''hi'')" "ProviderError ''timeout''" "[]" no_trace
                "[]" "ascii ''hi''" "[]"]
          d e l s
    by simp
qed

lemma server_frame_shape:
  "NemoResponse_shape (JObject [(''audio'', JString a), (''text'', JString r), (''visemes'', JArray [])])"
  by (simp add: NemoResponse_shape_def has_shape_def)

lemma endpoint_sent_shape:
  "list_all NemoResponse_shape (sent tr) \<Longrightarrow>
   list_all NemoResponse_shape (sent (websocket_endpoint sv frames tr))"
proof (induction frames arbitrary: tr)
  case Nil
  then show ?case by simp
next
  case (Cons data frames)
  show ?case
  proof (cases "talk_turn sv data")
    case (Inl e)
    with Cons.prems show ?thesis by simp
  next
    case (Inr p)
    obtain frame task where p: "p = (frame, task)" by (cases p)
    from Inr p talk_turn_frame [of sv data frame task]
    have "NemoResponse_shape frame" by (auto simp: server_frame_shape)
    with Cons.prems have "list_all NemoResponse_shape
        (sent (tr\<lparr>sent := sent tr @ [frame], background := background tr @ [task]\<rparr>))"
      by simp
    from Cons.IH [OF this] Inr p show ?thesis by simp
  qed
qed

text \<open>
  C7, as the code has it. Every frame the front end sends is \<^verbatim>\<open>{text}\<close>, which has the
  request shape \<^verbatim>\<open>{text, user_id?}\<close>. Every frame the endpoint sends is
  \<^verbatim>\<open>{audio, text, visemes}\<close>: it has the shape of the interface \<^verbatim>\<open>NemoResponse\<close>
  (\<^verbatim>\<open>{text, audio, visemes, error?}\<close>), the hook reads it as such, and its \<^verbatim>\<open>text\<close> is the
  final answer.
\<close>

theorem frames_have_declared_shapes:
  "(wsRef s = Some OPEN \<longrightarrow>
      wire (sendMessage t s) = wire s @ [JObject [(''text'', JString t)]]
      \<and> spec_request_shape (JObject [(''text'', JString t)]))
   \<and> (wsRef s \<noteq> Some OPEN \<longrightarrow> wire (sendMessage t s) = wire s)
   \<and> (talk_turn sv data = Inr (frame, task) \<longrightarrow>
        NemoResponse_shape frame
        \<and> keys_of frame = [''audio'', ''text'', ''visemes'']
        \<and> (\<exists>r. parse_NemoResponse frame = Some r \<and> resp_text r = snd task))
   \<and> list_all NemoResponse_shape (sent (websocket_endpoint sv frames no_trace))"
proof (intro conjI impI)
  assume "talk_turn sv data = Inr (frame, task)"
  from talk_turn_frame [OF this] obtain a r where
    f: "frame = JObject [(''audio'', JString a), (''text'', JString r), (''visemes'', JArray [])]"
    and t: "snd task = r"
    by blast
  show "NemoResponse_shape frame" and "keys_of frame = [''audio'', ''text'', ''visemes'']"
    and "\<exists>r. parse_NemoResponse frame = Some r \<and> resp_text r = snd task"
    using f t by (simp_all add: server_frame_shape parse_server_frame)
next
  show "list_all NemoResponse_shape (sent (websocket_endpoint sv frames no_trace))"
    by (rule endpoint_sent_shape) (simp add: no_trace_def)
qed (simp_all add: sendMessage_def spec_request_shape_def has_shape_def)

text \<open>
  The claim as stated fails on the result: a frame the endpoint sends has no key
  \<^verbatim>\<open>final_text\<close> and has the keys \<^verbatim>\<open>audio\<close> and \<^verbatim>\<open>visemes\<close>, so it has not the shape
  \<^verbatim>\<open>{final_text, streamed_deltas?, tool_trace?}\<close>.
\<close>

theorem result_shape_counterexample:
  "sent (websocket_endpoint services_echo [JObject [(''text'', JString (ascii ''hi''))]] no_trace)
     = [JObject [(''audio'', JString []), (''text'', JString (ascii ''hi'')), (''visemes'', JArray [])]]
   \<and> \<not> spec_result_shape
         (JObject [(''audio'', JString []), (''text'', JString (ascii ''hi'')), (''visemes'', JArray [])])"
  by (simp add: get_context_def py_join_def talk_turn_cases no_trace_def services_echo_def
        spec_result_shape_def has_shape_def)

theorem frames_have_declared_shapes_witness:
  "wsRef (onopen (connect True useNemoSocket_initial)) = Some OPEN
   \<and> spec_request_shape (JObject [(''text'', JString (ascii ''hi''))])
   \<and> talk_turn services_echo (JObject [(''text'', JString (ascii ''hi''))])
       = Inr (JObject [(''audio'', JString []), (''text'', JString (ascii ''hi'')),
                       (''visemes'', JArray [])], (JString (ascii ''hi''), ascii ''hi''))
   \<and> NemoResponse_shape (JObject [(''audio'', JString []), (''text'', JString (ascii ''hi'')),
                       (''visemes'', JArray [])])"
proof -
  have o: "wsRef (onopen (connect True useNemoSocket_initial)) = Some OPEN"
    by (simp add: onopen_def)
  have t: "talk_turn services_echo (JObject [(''text'', JString (ascii ''hi''))])
       = Inr (JObject [(''audio'', JString []), (''text'', JString (ascii ''hi'')),
                       (''visemes'', JArray [])], (JString (ascii ''hi''), ascii ''hi''))"
    by (simp add: talk_turn_cases get_context_def py_join_def services_echo_def)
  show ?thesis
    using frames_have_declared_shapes
            [of "onopen (connect True useNemoSocket_initial)" "ascii ''hi''" services_echo
                "JObject [(''text'', JString (ascii ''hi''))]"
                "JObject [(''audio'', JString []), (''text'', JString (ascii ''hi'')),
                       (''visemes'', JArray [])]" "(JString (ascii ''hi''), ascii ''hi'')"]
          o t
    by simp
qed

section \<open>Properties of ToolRegistry\<close>

lemma validate_iff:
  "validate co ps args \<longleftrightarrow>
     (\<forall>p \<in> set ps. case args (param_name p) of
                      None \<Rightarrow> \<not> required p
                    | Some v \<Rightarrow> co (param_type p) v)"
  by (induction ps) (auto split: option.splits)

lemma not_validate_iff:
  "\<not> validate co ps args \<longleftrightarrow>
     (\<exists>p \<in> set ps. case args (param_name p) of
                      None \<Rightarrow> required p
                    | Some v \<Rightarrow> \<not> co (param_type p) v)"
  by (auto simp: validate_iff split: option.splits)

lemma capture_invoke:
  "capture (inv_id call) (invoke t call world) =
     (case executor t (arguments call) world of
        (Inr out, world') \<Rightarrow>
          (Wrapped \<lparr>result_tool_call_id = inv_id call, result_output = Some out,
                    result_error = None\<rparr>, world')
      | (Inl msg, world') \<Rightarrow>
          (Wrapped \<lparr>result_tool_call_id = inv_id call, result_output = None,
                    result_error = Some (ToolExecutionError, msg)\<rparr>, world'))"
  by (simp add: capture_def invoke_def split: prod.splits sum.splits)

lemma invoke_raises:
  "fst (executor t (arguments call) world) = Inl msg \<Longrightarrow>
   fst (invoke t call world) = Propagated msg"
  by (cases "executor t (arguments call) world") (simp add: invoke_def)

lemma execute_unknown:
  "tools reg (inv_name call) = None \<Longrightarrow> execute reg call world = (Failed UnknownTool, world)"
  by (simp add: execute_def)

lemma execute_invalid:
  "tools reg (inv_name call) = Some t \<Longrightarrow>
   \<not> validate (coercible reg) (parameters t) (arguments call) \<Longrightarrow>
   execute reg call world = (Failed InvalidArguments, world)"
  by (simp add: execute_def)

lemma execute_dispatch:
  "tools reg (inv_name call) = Some t \<Longrightarrow>
   validate (coercible reg) (parameters t) (arguments call) \<Longrightarrow>
   execute reg call world = capture (inv_id call) (invoke t call world)"
  by (simp add: execute_def)

lemma execute_returned:
  "tools reg (inv_name call) = Some t \<Longrightarrow>
   validate (coercible reg) (parameters t) (arguments call) \<Longrightarrow>
   executor t (arguments call) world = (Inr out, world') \<Longrightarrow>
   execute reg call world =
     (Wrapped \<lparr>result_tool_call_id = inv_id call, result_output = Some out,
               result_error = None\<rparr>, world')"
  by (simp add: execute_dispatch capture_invoke)

lemma execute_raised:
  "tools reg (inv_name call) = Some t \<Longrightarrow>
   validate (coercible reg) (parameters t) (arguments call) \<Longrightarrow>
   executor t (arguments call) world = (Inl msg, world') \<Longrightarrow>
   execute reg call world =
     (Wrapped \<lparr>result_tool_call_id = inv_id call, result_output = None,
               result_error = Some (ToolExecutionError, msg)\<rparr>, world')"
  by (simp add: execute_dispatch capture_invoke)

lemma register_fresh:
  "register name description ps ex reg = Inr reg' \<Longrightarrow>
   tools reg name = None
   \<and> tools reg' = (tools reg)(name \<mapsto> \<lparr>tool_name = name, tool_description = description,
                                       parameters = ps, executor = ex\<rparr>)
   \<and> coercible reg' = coercible reg"
  by (auto simp: register_def split: option.splits)

lemma registry_one_tools:
  "tools registry_one = [''read_file'' \<mapsto> read_file_tool]"
  "coercible registry_one = (\<lambda>ty v. ty = ''str'')"
  "register ''read_file'' ''Read file contents'' (parameters read_file_tool)
     (executor read_file_tool) registry_empty = Inr registry_one"
  by (simp_all add: registry_one_def register_def registry_empty_def read_file_tool_def)

text \<open>
  C6, on the specification's \<^verbatim>\<open>execute\<close>. A call fails with \<^verbatim>\<open>UnknownTool\<close> exactly when the
  name is not registered, and with \<^verbatim>\<open>InvalidArguments\<close> exactly when the tool is registered
  and some declared parameter is required and absent, or present with a value that is not
  coercible to its type; in both cases no executor has run, the world is as it was.
  Otherwise, and only then, the executor runs, once: the world left is the executor's, and
  the call gives a ToolResult that carries the id of the invocation and has exactly one of
  \<^verbatim>\<open>output\<close> and \<^verbatim>\<open>error\<close> set, the output the executor returned, or the error
  \<^verbatim>\<open>ToolExecutionError\<close> with the message of the exception the executor raised. No call
  lets an exception through to the caller, although the dispatch alone would, and no call
  fails with another kind. A name
  that \<^verbatim>\<open>register\<close> accepts was unknown to \<^verbatim>\<open>execute\<close> before, and is dispatched to the
  registered executor afterwards.
\<close>

theorem execute_never_propagates:
  "(fst (execute reg call world) = Failed UnknownTool \<longleftrightarrow> tools reg (inv_name call) = None)
   \<and> (fst (execute reg call world) = Failed InvalidArguments \<longleftrightarrow>
        (\<exists>t p. tools reg (inv_name call) = Some t \<and> p \<in> set (parameters t)
               \<and> (case arguments call (param_name p) of
                     None \<Rightarrow> required p
                   | Some v \<Rightarrow> \<not> coercible reg (param_type p) v)))
   \<and> ((\<exists>kind. fst (execute reg call world) = Failed kind) \<longrightarrow>
        snd (execute reg call world) = world)
   \<and> ((\<exists>r. fst (execute reg call world) = Wrapped r) \<longleftrightarrow>
        (\<exists>t. tools reg (inv_name call) = Some t
             \<and> validate (coercible reg) (parameters t) (arguments call)))
   \<and> (\<forall>t. tools reg (inv_name call) = Some t
            \<and> validate (coercible reg) (parameters t) (arguments call) \<longrightarrow>
          snd (execute reg call world) = snd (executor t (arguments call) world)
          \<and> (\<forall>out. fst (executor t (arguments call) world) = Inr out \<longrightarrow>
                fst (execute reg call world)
                  = Wrapped \<lparr>result_tool_call_id = inv_id call, result_output = Some out,
                             result_error = None\<rparr>)
          \<and> (\<forall>msg. fst (executor t (arguments call) world) = Inl msg \<longrightarrow>
                fst (invoke t call world) = Propagated msg
                \<and> fst (execute reg call world)
                  = Wrapped \<lparr>result_tool_call_id = inv_id call, result_output = None,
                             result_error = Some (ToolExecutionError, msg)\<rparr>))
   \<and> (\<forall>r. fst (execute reg call world) = Wrapped r \<longrightarrow>
          exactly_one_set r \<and> result_tool_call_id r = inv_id call)
   \<and> (\<forall>msg. fst (execute reg call world) \<noteq> Propagated msg)
   \<and> fst (execute reg call world) \<noteq> Failed DuplicateTool
   \<and> fst (execute reg call world) \<noteq> Failed ToolExecutionError
   \<and> (\<forall>reg'. register (inv_name call) description ps ex reg = Inr reg'
               \<and> validate (coercible reg) ps (arguments call) \<longrightarrow>
          fst (execute reg call world) = Failed UnknownTool
          \<and> execute reg' call world = capture (inv_id call)
               (invoke \<lparr>tool_name = inv_name call, tool_description = description,
                        parameters = ps, executor = ex\<rparr> call world))"
proof -
  have reg: "fst (execute reg call world) = Failed UnknownTool
          \<and> execute reg' call world = capture (inv_id call)
               (invoke \<lparr>tool_name = inv_name call, tool_description = description,
                        parameters = ps, executor = ex\<rparr> call world)"
    if r: "register (inv_name call) description ps ex reg = Inr reg'"
      and v: "validate (coercible reg) ps (arguments call)" for reg'
  proof -
    from register_fresh [OF r] have n: "tools reg (inv_name call) = None"
      and t: "tools reg' (inv_name call)
          = Some \<lparr>tool_name = inv_name call, tool_description = description,
                  parameters = ps, executor = ex\<rparr>"
      and c: "coercible reg' = coercible reg"
      by simp_all
    from n have "fst (execute reg call world) = Failed UnknownTool"
      by (simp add: execute_unknown)
    moreover from t c v have "execute reg' call world = capture (inv_id call)
               (invoke \<lparr>tool_name = inv_name call, tool_description = description,
                        parameters = ps, executor = ex\<rparr> call world)"
      by (simp add: execute_dispatch)
    ultimately show ?thesis ..
  qed
  have main: "(fst (execute reg call world) = Failed UnknownTool \<longleftrightarrow> tools reg (inv_name call) = None)
   \<and> (fst (execute reg call world) = Failed InvalidArguments \<longleftrightarrow>
        (\<exists>t p. tools reg (inv_name call) = Some t \<and> p \<in> set (parameters t)
               \<and> (case arguments call (param_name p) of
                     None \<Rightarrow> required p
                   | Some v \<Rightarrow> \<not> coercible reg (param_type p) v)))
   \<and> ((\<exists>kind. fst (execute reg call world) = Failed kind) \<longrightarrow>
        snd (execute reg call world) = world)
   \<and> ((\<exists>r. fst (execute reg call world) = Wrapped r) \<longleftrightarrow>
        (\<exists>t. tools reg (inv_name call) = Some t
             \<and> validate (coercible reg) (parameters t) (arguments call)))
   \<and> (\<forall>t. tools reg (inv_name call) = Some t
            \<and> validate (coercible reg) (parameters t) (arguments call) \<longrightarrow>
          snd (execute reg call world) = snd (executor t (arguments call) world)
          \<and> (\<forall>out. fst (executor t (arguments call) world) = Inr out \<longrightarrow>
                fst (execute reg call world)
                  = Wrapped \<lparr>result_tool_call_id = inv_id call, result_output = Some out,
                             result_error = None\<rparr>)
          \<and> (\<forall>msg. fst (executor t (arguments call) world) = Inl msg \<longrightarrow>
                fst (invoke t call world) = Propagated msg
                \<and> fst (execute reg call world)
                  = Wrapped \<lparr>result_tool_call_id = inv_id call, result_output = None,
                             result_error = Some (ToolExecutionError, msg)\<rparr>))
   \<and> (\<forall>r. fst (execute reg call world) = Wrapped r \<longrightarrow>
          exactly_one_set r \<and> result_tool_call_id r = inv_id call)
   \<and> (\<forall>msg. fst (execute reg call world) \<noteq> Propagated msg)
   \<and> fst (execute reg call world) \<noteq> Failed DuplicateTool
   \<and> fst (execute reg call world) \<noteq> Failed ToolExecutionError"
  proof (cases "tools reg (inv_name call)")
    case None
    then show ?thesis by (simp add: execute_unknown)
  next
    case (Some t)
    show ?thesis
    proof (cases "validate (coercible reg) (parameters t) (arguments call)")
      case False
      then have "\<exists>p \<in> set (parameters t).
          case arguments call (param_name p) of
            None \<Rightarrow> required p
          | Some v \<Rightarrow> \<not> coercible reg (param_type p) v"
        by (simp only: not_validate_iff)
      with Some False show ?thesis by (auto simp: execute_invalid)
    next
      case True
      then have ok: "\<not> (\<exists>p \<in> set (parameters t).
          case arguments call (param_name p) of
            None \<Rightarrow> required p
          | Some v \<Rightarrow> \<not> coercible reg (param_type p) v)"
        by (simp only: not_validate_iff [symmetric]) simp
      obtain res world' where e: "executor t (arguments call) world = (res, world')"
        by (cases "executor t (arguments call) world")
      show ?thesis
      proof (cases res)
        case (Inl msg)
        with Some True e have "execute reg call world =
           (Wrapped \<lparr>result_tool_call_id = inv_id call, result_output = None,
                     result_error = Some (ToolExecutionError, msg)\<rparr>, world')"
          by (simp add: execute_raised)
        with Some True e Inl ok show ?thesis by (auto simp: exactly_one_set_def invoke_raises)
      next
        case (Inr out)
        with Some True e have "execute reg call world =
           (Wrapped \<lparr>result_tool_call_id = inv_id call, result_output = Some out,
                     result_error = None\<rparr>, world')"
          by (simp add: execute_returned)
        with Some True e Inr ok show ?thesis by (auto simp: exactly_one_set_def)
      qed
    qed
  qed
  from main reg show ?thesis by blast
qed


theorem execute_never_propagates_witness:
  "register ''read_file'' ''Read file contents'' (parameters read_file_tool)
     (executor read_file_tool) registry_empty = Inr registry_one
   \<and> execute registry_empty \<lparr>inv_id = ''1'', inv_name = ''read_file'',
                               arguments = [''path'' \<mapsto> ''notes'']\<rparr> []
       = (Failed UnknownTool, [])
   \<and> execute registry_one \<lparr>inv_id = ''1'', inv_name = ''read_file'',
                             arguments = [''path'' \<mapsto> ''notes'']\<rparr> []
       = (Wrapped \<lparr>result_tool_call_id = ''1'', result_output = Some (ascii ''contents''),
                   result_error = None\<rparr>, [''notes''])
   \<and> execute registry_one \<lparr>inv_id = ''2'', inv_name = ''read_file'',
                             arguments = [''path'' \<mapsto> ''missing'']\<rparr> []
       = (Wrapped \<lparr>result_tool_call_id = ''2'', result_output = None,
                   result_error = Some (ToolExecutionError, ''file not found'')\<rparr>, [''missing''])
   \<and> execute registry_one \<lparr>inv_id = ''3'', inv_name = ''read_file'', arguments = Map.empty\<rparr> []
       = (Failed InvalidArguments, [])
   \<and> execute registry_one \<lparr>inv_id = ''4'', inv_name = ''ls'', arguments = Map.empty\<rparr> []
       = (Failed UnknownTool, [])"
proof -
  let ?notes = "\<lparr>inv_id = ''1'', inv_name = ''read_file'', arguments = [''path'' \<mapsto> ''notes'']\<rparr>"
  let ?missing = "\<lparr>inv_id = ''2'', inv_name = ''read_file'', arguments = [''path'' \<mapsto> ''missing'']\<rparr>"
  let ?none = "\<lparr>inv_id = ''3'', inv_name = ''read_file'', arguments = Map.empty\<rparr> :: string ToolInvocation"
  let ?ls = "\<lparr>inv_id = ''4'', inv_name = ''ls'', arguments = Map.empty\<rparr> :: string ToolInvocation"
  have p: "parameters read_file_tool
      = [\<lparr>param_name = ''path'', param_type = ''str'', param_description = ''the file'',
          required = True, param_default = None\<rparr>]"
    by (simp add: read_file_tool_def)
  have v: "validate (\<lambda>ty v. ty = ''str'') (parameters read_file_tool) [''path'' \<mapsto> ''notes'']"
    "validate (\<lambda>ty v. ty = ''str'') (parameters read_file_tool) [''path'' \<mapsto> ''missing'']"
    by (simp_all add: p)
  have e: "executor read_file_tool [''path'' \<mapsto> ''notes''] [] = (Inr (ascii ''contents''), [''notes''])"
    "executor read_file_tool [''path'' \<mapsto> ''missing''] [] = (Inl ''file not found'', [''missing''])"
    by (simp_all add: read_file_tool_def)
  have bad: "\<exists>t p. tools registry_one (inv_name ?none) = Some t \<and> p \<in> set (parameters t)
               \<and> (case arguments ?none (param_name p) of
                     None \<Rightarrow> required p
                   | Some v \<Rightarrow> \<not> coercible registry_one (param_type p) v)"
    by (simp add: registry_one_tools p)
  have "execute registry_empty ?notes [] = (Failed UnknownTool, [])"
    using execute_never_propagates
            [of registry_empty ?notes "[]" "''Read file contents''" "parameters read_file_tool"
                "executor read_file_tool"]
          registry_one_tools v
    by (simp add: prod_eq_iff registry_empty_def)
  moreover have "execute registry_one ?notes []
       = (Wrapped \<lparr>result_tool_call_id = ''1'', result_output = Some (ascii ''contents''),
                   result_error = None\<rparr>, [''notes''])"
    using execute_never_propagates [of registry_one ?notes "[]"] registry_one_tools v e
    by (simp add: prod_eq_iff)
  moreover have "execute registry_one ?missing []
       = (Wrapped \<lparr>result_tool_call_id = ''2'', result_output = None,
                   result_error = Some (ToolExecutionError, ''file not found'')\<rparr>, [''missing''])"
    using execute_never_propagates [of registry_one ?missing "[]"] registry_one_tools v e
    by (simp add: prod_eq_iff)
  moreover have "execute registry_one ?none [] = (Failed InvalidArguments, [])"
    using execute_never_propagates [of registry_one ?none "[]"] bad
    by (simp add: prod_eq_iff)
  moreover have "execute registry_one ?ls [] = (Failed UnknownTool, [])"
    using execute_never_propagates [of registry_one ?ls "[]"] registry_one_tools
    by (simp add: prod_eq_iff)
  ultimately show ?thesis
    using registry_one_tools by simp
qed

section \<open>Properties of ContextWindow\<close>

lemma is_system_evict_oldest:
  "filter is_system (evict_oldest h) = filter is_system h"
  by (induction h) simp_all

lemma subseq_evict_oldest:
  "subseq (evict_oldest h) h"
  by (induction h) auto

lemma evict_stop:
  "total_cost c h \<le> b \<or> non_system h = [] \<or> (\<exists>x. non_system h = [x] \<and> b < c x) \<Longrightarrow>
   evict c b h = h"
  by (subst evict.simps) (auto split: list.splits)

lemma evict_step:
  "\<not> (total_cost c h \<le> b \<or> non_system h = [] \<or> (\<exists>x. non_system h = [x] \<and> b < c x)) \<Longrightarrow>
   evict c b h = evict c b (evict_oldest h)"
  by (subst evict.simps) (auto split: list.splits)

lemma evict_funpow:
  "\<exists>k. evict c b h = (evict_oldest ^^ k) h
       \<and> (total_cost c (evict c b h) \<le> b \<or> non_system (evict c b h) = []
           \<or> (\<exists>x. non_system (evict c b h) = [x] \<and> b < c x))"
proof (induction "length (non_system h)" arbitrary: h rule: less_induct)
  case less
  show ?case
  proof (cases "total_cost c h \<le> b \<or> non_system h = [] \<or> (\<exists>x. non_system h = [x] \<and> b < c x)")
    case True
    then have "evict c b h = (evict_oldest ^^ 0) h"
      by (simp only: evict_stop funpow_0)
    with True show ?thesis
      by (metis evict_stop)
  next
    case False
    then have ne: "non_system h \<noteq> []" by blast
    then have "length (non_system (evict_oldest h)) < length (non_system h)"
      by (simp add: non_system_evict_oldest)
    from less [OF this] obtain k where
      k: "evict c b (evict_oldest h) = (evict_oldest ^^ k) (evict_oldest h)"
      and d: "total_cost c (evict c b (evict_oldest h)) \<le> b
          \<or> non_system (evict c b (evict_oldest h)) = []
          \<or> (\<exists>x. non_system (evict c b (evict_oldest h)) = [x] \<and> b < c x)"
      by blast
    from False have step: "evict c b h = evict c b (evict_oldest h)"
      by (rule evict_step)
    from step k have "evict c b h = (evict_oldest ^^ Suc k) h"
      by (simp add: funpow_swap1)
    with d step show ?thesis
      by metis
  qed
qed

lemma evict_oldest_Nil:
  "evict_oldest h = [] \<Longrightarrow> h = [] \<or> (\<exists>x. h = [x] \<and> \<not> is_system x)"
  by (cases h) (auto split: if_splits)

lemma evict_nonempty:
  "h \<noteq> [] \<Longrightarrow> evict c b h \<noteq> []"
proof (induction "length (non_system h)" arbitrary: h rule: less_induct)
  case less
  show ?case
  proof (cases "total_cost c h \<le> b \<or> non_system h = [] \<or> (\<exists>x. non_system h = [x] \<and> b < c x)")
    case True
    then have "evict c b h = h" by (rule evict_stop)
    with less.prems show ?thesis by simp
  next
    case False
    then have "length (non_system (evict_oldest h)) < length (non_system h)"
      by (simp add: non_system_evict_oldest)
    moreover have "evict_oldest h \<noteq> []"
    proof
      assume "evict_oldest h = []"
      with less.prems obtain x where "h = [x]" and "\<not> is_system x"
        using evict_oldest_Nil by blast
      with False show False
        by (auto simp: non_system_def total_cost_def)
    qed
    ultimately have "evict c b (evict_oldest h) \<noteq> []"
      by (rule less.hyps)
    with False show ?thesis
      by (simp add: evict_step)
  qed
qed

lemma funpow_evict_oldest_system:
  "filter is_system ((evict_oldest ^^ k) h) = filter is_system h"
  by (induction k) (simp_all add: is_system_evict_oldest)

lemma funpow_evict_oldest_non_system:
  "non_system ((evict_oldest ^^ k) h) = drop k (non_system h)"
  by (induction k) (simp_all add: non_system_evict_oldest drop_Suc tl_drop)

lemma funpow_evict_oldest_subseq:
  "subseq ((evict_oldest ^^ k) h) h"
proof (induction k)
  case 0
  show ?case by simp
next
  case (Suc k)
  have "subseq (evict_oldest ((evict_oldest ^^ k) h)) ((evict_oldest ^^ k) h)"
    by (rule subseq_evict_oldest)
  with Suc show ?case
    by (simp add: subseq_order.order_trans)
qed

lemma no_system_non_system:
  "list_all (\<lambda>x. \<not> is_system x) h \<Longrightarrow> non_system h = h"
  by (simp add: non_system_def list_all_iff)

lemma cw_append_history:
  "history (fst (cw_append m w)) = evict (cost w) (budget w) (history w @ [m])"
  "budget (fst (cw_append m w)) = budget w"
  "cost (fst (cw_append m w)) = cost w"
  "snd (cw_append m w)
     \<longleftrightarrow> budget w < total_cost (cost w) (evict (cost w) (budget w) (history w @ [m]))"
  by (simp_all add: cw_append_def Let_def)

lemma cw_appends_snoc:
  "cw_appends (ms @ [m]) w = fst (cw_append m (cw_appends ms w))"
  by (induction ms arbitrary: w) simp_all

lemma cw_appends_fields:
  "budget (cw_appends ms w) = budget w \<and> cost (cw_appends ms w) = cost w"
  by (induction ms arbitrary: w) (simp_all add: cw_append_history)

lemma evict_system:
  "filter is_system (evict c b h) = filter is_system h"
  using evict_funpow [of c b h] by (auto simp: funpow_evict_oldest_system)

lemma cw_appends_system:
  "list_all (\<lambda>x. \<not> is_system x) ms \<Longrightarrow>
   filter is_system (history (cw_appends ms w)) = filter is_system (history w)"
  by (induction ms arbitrary: w) (simp_all add: cw_append_history evict_system)

lemma only_system_left:
  assumes one: "length (filter is_system h) \<le> 1" and none: "non_system h = []" and ne: "h \<noteq> []"
  shows "\<exists>x. h = [x]"
proof -
  from none have "filter is_system h = h"
    by (simp add: non_system_def filter_empty_conv filter_id_conv)
  with one have "length h \<le> 1" by simp
  with ne show ?thesis
    by (cases h) auto
qed

lemma evict_budget:
  assumes one: "length (filter is_system h) \<le> 1" and ne: "h \<noteq> []"
  shows "total_cost c (evict c b h) \<le> b
     \<or> (\<exists>x. b < c x \<and> (evict c b h = [x] \<or> non_system (evict c b h) = [x]))"
proof -
  let ?r = "evict c b h"
  from evict_funpow [of c b h]
  have d: "total_cost c ?r \<le> b \<or> non_system ?r = [] \<or> (\<exists>x. non_system ?r = [x] \<and> b < c x)"
    by blast
  have rne: "?r \<noteq> []"
    using ne by (rule evict_nonempty)
  from one have rone: "length (filter is_system ?r) \<le> 1"
    by (simp add: evict_system)
  show ?thesis
  proof (cases "total_cost c ?r \<le> b")
    case True
    then show ?thesis ..
  next
    case over: False
    show ?thesis
    proof (cases "non_system ?r = []")
      case True
      from only_system_left [OF rone True rne] obtain x where x: "?r = [x]" ..
      with over have "b < c x"
        by (simp add: total_cost_def)
      with x show ?thesis by blast
    next
      case False
      with d over obtain x where "non_system ?r = [x]" and "b < c x"
        by blast
      then show ?thesis by blast
    qed
  qed
qed

text \<open>
  C3, on the specification's \<^verbatim>\<open>append\<close>. In a history with at most one system message,
  the system instruction, the cumulative cost after an append does not exceed the budget,
  except when a single message alone exceeds the budget, and then that message is
  retained alone: it is the whole history, or it is the only message left besides the
  system instruction, which is never evicted. Whatever the history: system messages are
  never removed; the messages removed are the oldest non-system ones, a prefix of them in
  insertion order; the history left is a subsequence of the old one followed by the new
  message, so nothing is reordered; it is never empty; and the warning is signalled
  exactly when the history is left over the budget. In a history without system messages
  the message retained alone is the appended one. The first statement holds after each
  append of a sequence of appends of non-system messages to a window with at most one
  system message.
\<close>

theorem append_budget_and_eviction:
  "(length (filter is_system (history w @ [m])) \<le> 1 \<longrightarrow>
      total_cost (cost w) (history (fst (cw_append m w))) \<le> budget w
      \<or> (\<exists>x. budget w < cost w x
              \<and> (history (fst (cw_append m w)) = [x]
                  \<or> non_system (history (fst (cw_append m w))) = [x])))
   \<and> filter is_system (history (fst (cw_append m w))) = filter is_system (history w @ [m])
   \<and> (\<exists>k. non_system (history (fst (cw_append m w))) = drop k (non_system (history w @ [m])))
   \<and> subseq (history (fst (cw_append m w))) (history w @ [m])
   \<and> history (fst (cw_append m w)) \<noteq> []
   \<and> (snd (cw_append m w) \<longleftrightarrow> budget w < total_cost (cost w) (history (fst (cw_append m w))))
   \<and> (list_all (\<lambda>x. \<not> is_system x) (history w @ [m])
        \<and> budget w < total_cost (cost w) (history (fst (cw_append m w))) \<longrightarrow>
        history (fst (cw_append m w)) = [m] \<and> budget w < cost w m)
   \<and> (length (filter is_system (history w)) \<le> 1 \<and> list_all (\<lambda>x. \<not> is_system x) (ms @ [m]) \<longrightarrow>
        total_cost (cost w) (history (cw_appends (ms @ [m]) w)) \<le> budget w
        \<or> (\<exists>x. budget w < cost w x
                \<and> (history (cw_appends (ms @ [m]) w) = [x]
                    \<or> non_system (history (cw_appends (ms @ [m]) w)) = [x])))"
proof -
  let ?h = "history w @ [m]"
  let ?r = "evict (cost w) (budget w) ?h"
  have r: "history (fst (cw_append m w)) = ?r"
    and s: "snd (cw_append m w) \<longleftrightarrow> budget w < total_cost (cost w) ?r"
    by (simp_all add: cw_append_history)
  from evict_funpow [of "cost w" "budget w" ?h] obtain k where
    k: "?r = (evict_oldest ^^ k) ?h"
    and d: "total_cost (cost w) ?r \<le> budget w \<or> non_system ?r = []
            \<or> (\<exists>x. non_system ?r = [x] \<and> budget w < cost w x)"
    by blast
  have sys: "filter is_system ?r = filter is_system ?h"
    by (rule evict_system)
  have non: "non_system ?r = drop k (non_system ?h)"
    unfolding k by (rule funpow_evict_oldest_non_system)
  have sub: "subseq ?r ?h"
    unfolding k by (rule funpow_evict_oldest_subseq)
  have ne: "?r \<noteq> []"
    by (rule evict_nonempty) simp
  have post: "total_cost (cost w) ?r \<le> budget w
      \<or> (\<exists>x. budget w < cost w x \<and> (?r = [x] \<or> non_system ?r = [x]))"
    if "length (filter is_system ?h) \<le> 1"
    using that by (rule evict_budget) simp
  have alone: "?r = [m] \<and> budget w < cost w m"
    if no: "list_all (\<lambda>x. \<not> is_system x) ?h" and over: "budget w < total_cost (cost w) ?r"
  proof -
    from no have nh: "non_system ?h = ?h"
      by (rule no_system_non_system)
    from no sys have "filter is_system ?r = []"
      by (simp add: list_all_iff filter_empty_conv)
    then have "non_system ?r = ?r"
      by (simp add: non_system_def filter_empty_conv filter_id_conv)
    with non nh have dr: "?r = drop k ?h" by simp
    from d over ne \<open>non_system ?r = ?r\<close> obtain x where x: "?r = [x]" and bx: "budget w < cost w x"
      by auto
    from dr x have dk: "drop k ?h = [x]" by metis
    then have "k < length ?h"
      by (metis drop_all list.discI not_le_imp_less)
    then have "last (drop k ?h) = last ?h"
      by (rule last_drop)
    with dk have "x = m" by simp
    with x bx show ?thesis by simp
  qed
  have seq: "total_cost (cost w) (history (cw_appends (ms @ [m]) w)) \<le> budget w
        \<or> (\<exists>x. budget w < cost w x
                \<and> (history (cw_appends (ms @ [m]) w) = [x]
                    \<or> non_system (history (cw_appends (ms @ [m]) w)) = [x]))"
    if one: "length (filter is_system (history w)) \<le> 1"
      and no: "list_all (\<lambda>x. \<not> is_system x) (ms @ [m])"
  proof -
    let ?w = "cw_appends ms w"
    from no have "filter is_system (history ?w) = filter is_system (history w)"
      by (simp add: cw_appends_system)
    with one no have "length (filter is_system (history ?w @ [m])) \<le> 1"
      by simp
    then have "total_cost (cost ?w) (evict (cost ?w) (budget ?w) (history ?w @ [m])) \<le> budget ?w
      \<or> (\<exists>x. budget ?w < cost ?w x
            \<and> (evict (cost ?w) (budget ?w) (history ?w @ [m]) = [x]
                \<or> non_system (evict (cost ?w) (budget ?w) (history ?w @ [m])) = [x]))"
      by (rule evict_budget) simp
    then show ?thesis
      by (simp add: cw_appends_snoc cw_append_history cw_appends_fields)
  qed
  from non have "\<exists>k. non_system ?r = drop k (non_system ?h)" ..
  with post sys sub ne s alone seq show ?thesis
    unfolding r by blast
qed

theorem append_budget_and_eviction_witness:
  "length (filter is_system (history window_3 @ [user_hello])) \<le> 1
   \<and> filter is_system (history (fst (cw_append user_hello window_3))) = [system_ab]
   \<and> non_system (history (fst (cw_append user_hello window_3))) = [user_hello]
   \<and> budget window_3 < cost window_3 user_hello
   \<and> list_all (\<lambda>x. \<not> is_system x) (history (window_3\<lparr>history := []\<rparr>) @ [user_hello])
   \<and> budget (window_3\<lparr>history := []\<rparr>)
       < total_cost (cost (window_3\<lparr>history := []\<rparr>))
           (history (fst (cw_append user_hello (window_3\<lparr>history := []\<rparr>))))
   \<and> history (fst (cw_append user_hello (window_3\<lparr>history := []\<rparr>))) = [user_hello]
   \<and> length (filter is_system (history window_3)) \<le> 1
   \<and> list_all (\<lambda>x. \<not> is_system x) ([user_hello] @ [user_hello])
   \<and> (total_cost (cost window_3) (history (cw_appends ([user_hello] @ [user_hello]) window_3))
         \<le> budget window_3
       \<or> (\<exists>x. budget window_3 < cost window_3 x
               \<and> (history (cw_appends ([user_hello] @ [user_hello]) window_3) = [x]
                   \<or> non_system (history (cw_appends ([user_hello] @ [user_hello]) window_3))
                       = [x])))"
proof -
  let ?w = "window_3\<lparr>history := []\<rparr>"
  have n: "non_system [user_hello] = [user_hello]" "is_system system_ab" "\<not> is_system user_hello"
    "non_system [system_ab, user_hello] = [user_hello]"
    by (simp_all add: non_system_def is_system_def user_hello_def system_ab_def)
  have c: "cost window_3 user_hello = 5" "budget window_3 = 3" "history window_3 = [system_ab]"
    by (simp_all add: window_3_def user_hello_def ascii_def)
  have "evict (cost ?w) (budget ?w) [user_hello] = [user_hello]"
    by (rule evict_stop) (simp add: n c)
  then have h: "history (fst (cw_append user_hello ?w)) = [user_hello]"
    by (simp add: cw_append_def Let_def c)
  with c have over: "budget ?w < total_cost (cost ?w) (history (fst (cw_append user_hello ?w)))"
    by (simp add: total_cost_def)
  have no: "list_all (\<lambda>x. \<not> is_system x) (history ?w @ [user_hello])"
    using n c by simp
  have one: "length (filter is_system (history window_3 @ [user_hello])) \<le> 1"
    "length (filter is_system (history window_3)) \<le> 1"
    "list_all (\<lambda>x. \<not> is_system x) ([user_hello] @ [user_hello])"
    using n c by simp_all
  from append_budget_and_eviction [of ?w user_hello "[]"] no over
  have a: "history (fst (cw_append user_hello ?w)) = [user_hello]"
    by blast
  from append_budget_and_eviction [of window_3 user_hello "[]"] n c
  have b: "filter is_system (history (fst (cw_append user_hello window_3))) = [system_ab]"
    "\<exists>k. non_system (history (fst (cw_append user_hello window_3))) = drop k [user_hello]"
    by simp_all
  have e: "evict (cost window_3) (budget window_3) [system_ab, user_hello] = [system_ab, user_hello]"
    by (rule evict_stop) (simp add: n c)
  then have d: "non_system (history (fst (cw_append user_hello window_3))) = [user_hello]"
    by (simp add: cw_append_history c n)
  from append_budget_and_eviction [of window_3 user_hello "[user_hello]"] one
  have s: "total_cost (cost window_3) (history (cw_appends ([user_hello] @ [user_hello]) window_3))
         \<le> budget window_3
       \<or> (\<exists>x. budget window_3 < cost window_3 x
               \<and> (history (cw_appends ([user_hello] @ [user_hello]) window_3) = [x]
                   \<or> non_system (history (cw_appends ([user_hello] @ [user_hello]) window_3))
                       = [x]))"
    by blast
  from a b(1) d c no over one s show ?thesis
    by simp
qed

section \<open>Properties of AgentLoop\<close>

lemma call_llm_calls:
  "calls + 1 \<le> snd (call_llm a h calls retries)
   \<and> snd (call_llm a h calls retries) \<le> calls + retries + 1"
proof (induction retries arbitrary: calls)
  case 0
  show ?case by simp
next
  case (Suc retries)
  from Suc [of "calls + 1"] show ?case
    by (simp split: sum.splits llm_failure.splits)
qed

lemma call_llm_first:
  "\<forall>e. chat a calls h \<noteq> Inl (Transient e) \<Longrightarrow>
   call_llm a h calls retries = (chat a calls h, calls + 1)"
  by (cases retries) (auto split: sum.splits llm_failure.splits)

lemma rounds_provider_error:
  "call_llm a (snapshot (fst ww)) calls (max_retries a) = (Inl failure, calls') \<Longrightarrow>
   rounds a ww n calls =
     \<lparr>outcome = LLMProviderError failure, round_count = n, llm_calls = calls',
      window = fst ww, world_after = snd ww\<rparr>"
  by (subst rounds.simps) simp

lemma rounds_final:
  "call_llm a (snapshot (fst ww)) calls (max_retries a) = (Inr reply, calls') \<Longrightarrow>
   tool_calls reply = [] \<Longrightarrow>
   rounds a ww n calls =
     \<lparr>outcome = FinalAnswer (agent_content reply), round_count = n, llm_calls = calls',
      window = finalize a (agent_content reply) (fst ww), world_after = snd ww\<rparr>"
  by (subst rounds.simps) simp

lemma rounds_exceeded:
  "call_llm a (snapshot (fst ww)) calls (max_retries a) = (Inr reply, calls') \<Longrightarrow>
   tool_calls reply \<noteq> [] \<Longrightarrow> max_rounds a < n + 1 \<Longrightarrow>
   rounds a ww n calls =
     \<lparr>outcome = ToolLoopExceeded (limit_answer a), round_count = n + 1, llm_calls = calls',
      window = finalize a (limit_answer a) (fst (tool_round a reply ww)),
      world_after = snd (tool_round a reply ww)\<rparr>"
  by (subst rounds.simps) (simp add: Let_def)

lemma rounds_again:
  "call_llm a (snapshot (fst ww)) calls (max_retries a) = (Inr reply, calls') \<Longrightarrow>
   tool_calls reply \<noteq> [] \<Longrightarrow> \<not> max_rounds a < n + 1 \<Longrightarrow>
   rounds a ww n calls = rounds a (tool_round a reply ww) (n + 1) calls'"
  by (subst rounds.simps) (simp add: Let_def)

lemma rounds_bounds:
  assumes K: "\<And>h c. snd (call_llm a h c (max_retries a)) \<le> c + K"
  shows "n \<le> max_rounds a \<Longrightarrow>
   n \<le> round_count (rounds a ww n calls)
   \<and> round_count (rounds a ww n calls) \<le> max_rounds a + 1
   \<and> calls + round_count (rounds a ww n calls)
        + (if max_rounds a < round_count (rounds a ww n calls) then 0 else 1)
       \<le> llm_calls (rounds a ww n calls) + n
   \<and> llm_calls (rounds a ww n calls) + n * K
       \<le> calls + (round_count (rounds a ww n calls)
                   + (if max_rounds a < round_count (rounds a ww n calls) then 0 else 1)) * K
   \<and> ((\<exists>t. outcome (rounds a ww n calls) = ToolLoopExceeded t)
        \<longleftrightarrow> max_rounds a < round_count (rounds a ww n calls))"
proof (induction "max_rounds a - n" arbitrary: ww n calls rule: less_induct)
  case less
  obtain res calls' where c: "call_llm a (snapshot (fst ww)) calls (max_retries a) = (res, calls')"
    by (cases "call_llm a (snapshot (fst ww)) calls (max_retries a)")
  from call_llm_calls [of calls a "snapshot (fst ww)" "max_retries a"] c
  have lo: "calls + 1 \<le> calls'" by simp
  from K [of "snapshot (fst ww)" calls] c have hi: "calls' \<le> calls + K" by simp
  show ?case
  proof (cases res)
    case (Inl failure)
    with c less.prems lo hi show ?thesis
      by (simp add: rounds_provider_error)
  next
    case (Inr reply)
    show ?thesis
    proof (cases "tool_calls reply = []")
      case True
      with c Inr less.prems lo hi show ?thesis
        by (simp add: rounds_final)
    next
      case requests: False
      show ?thesis
      proof (cases "max_rounds a < n + 1")
        case True
        with c Inr requests less.prems lo hi show ?thesis
          by (simp add: rounds_exceeded)
      next
        case False
        then have le: "n + 1 \<le> max_rounds a" and "max_rounds a - (n + 1) < max_rounds a - n"
          by simp_all
        from less.hyps [OF this(2) le, of "tool_round a reply ww" calls']
        have ih: "n + 1 \<le> round_count (rounds a (tool_round a reply ww) (n + 1) calls')"
          "round_count (rounds a (tool_round a reply ww) (n + 1) calls') \<le> max_rounds a + 1"
          "calls' + round_count (rounds a (tool_round a reply ww) (n + 1) calls')
             + (if max_rounds a < round_count (rounds a (tool_round a reply ww) (n + 1) calls')
                then 0 else 1)
            \<le> llm_calls (rounds a (tool_round a reply ww) (n + 1) calls') + (n + 1)"
          "llm_calls (rounds a (tool_round a reply ww) (n + 1) calls') + (n + 1) * K
            \<le> calls' + (round_count (rounds a (tool_round a reply ww) (n + 1) calls')
                + (if max_rounds a < round_count (rounds a (tool_round a reply ww) (n + 1) calls')
                   then 0 else 1)) * K"
          "(\<exists>t. outcome (rounds a (tool_round a reply ww) (n + 1) calls') = ToolLoopExceeded t)
             \<longleftrightarrow> max_rounds a < round_count (rounds a (tool_round a reply ww) (n + 1) calls')"
          by blast+
        have r: "rounds a ww n calls = rounds a (tool_round a reply ww) (n + 1) calls'"
          using c Inr requests False by (simp add: rounds_again)
        from ih(4) hi have "llm_calls (rounds a (tool_round a reply ww) (n + 1) calls') + n * K
            \<le> calls + (round_count (rounds a (tool_round a reply ww) (n + 1) calls')
                + (if max_rounds a < round_count (rounds a (tool_round a reply ww) (n + 1) calls')
                   then 0 else 1)) * K"
          by simp
        with ih lo show ?thesis
          unfolding r by simp
      qed
    qed
  qed
qed

lemma rounds_outcome_limit:
  "outcome (rounds a ww n calls) = ToolLoopExceeded t \<Longrightarrow> t = limit_answer a"
proof (induction "max_rounds a + 1 - n" arbitrary: ww n calls rule: less_induct)
  case less
  obtain res calls' where c: "call_llm a (snapshot (fst ww)) calls (max_retries a) = (res, calls')"
    by (cases "call_llm a (snapshot (fst ww)) calls (max_retries a)")
  show ?case
  proof (cases res)
    case (Inl failure)
    with c less.prems show ?thesis
      by (simp add: rounds_provider_error)
  next
    case (Inr reply)
    show ?thesis
    proof (cases "tool_calls reply = []")
      case True
      with c Inr less.prems show ?thesis
        by (simp add: rounds_final)
    next
      case requests: False
      show ?thesis
      proof (cases "max_rounds a < n + 1")
        case True
        with c Inr requests less.prems show ?thesis
          by (simp add: rounds_exceeded)
      next
        case False
        then have m: "max_rounds a + 1 - (n + 1) < max_rounds a + 1 - n"
          by simp
        from c Inr requests False less.prems
        have "outcome (rounds a (tool_round a reply ww) (n + 1) calls') = ToolLoopExceeded t"
          by (simp add: rounds_again)
        from less.hyps [OF m this] show ?thesis .
      qed
    qed
  qed
qed

lemma rounds_always_tool:
  "(\<forall>k h. \<exists>reply. chat a k h = Inr reply \<and> tool_calls reply \<noteq> []) \<Longrightarrow> n \<le> max_rounds a \<Longrightarrow>
   outcome (rounds a ww n calls) = ToolLoopExceeded (limit_answer a)
   \<and> round_count (rounds a ww n calls) = max_rounds a + 1"
proof (induction "max_rounds a - n" arbitrary: ww n calls rule: less_induct)
  case less
  from less.prems(1) obtain reply where
    r: "chat a calls (snapshot (fst ww)) = Inr reply" and q: "tool_calls reply \<noteq> []"
    by blast
  then have c: "call_llm a (snapshot (fst ww)) calls (max_retries a) = (Inr reply, calls + 1)"
    by (simp add: call_llm_first)
  show ?case
  proof (cases "max_rounds a < n + 1")
    case True
    with less.prems(2) have "n = max_rounds a" by simp
    with c q True show ?thesis
      by (simp add: rounds_exceeded)
  next
    case False
    then have le: "n + 1 \<le> max_rounds a" and "max_rounds a - (n + 1) < max_rounds a - n"
      by simp_all
    from less.hyps [OF this(2) less.prems(1) le, of "tool_round a reply ww" "calls + 1"]
    show ?thesis
      using c q False by (simp add: rounds_again)
  qed
qed

text \<open>
  C2, on the specification's loop. The rounds are a total function (their termination is
  proved with the measure \<open>max_rounds + 1 - round_count\<close>), so every turn ends, whatever
  the LLM and the tools answer. \<^verbatim>\<open>round_count\<close> counts the tool rounds; it never passes
  \<open>max_rounds + 1\<close>, and the turn ends with the degraded answer of \<^verbatim>\<open>ToolLoopExceeded\<close>
  exactly when it has exceeded the maximum. A turn makes at least one LLM round-trip, at
  least one for every tool round, and at most \<open>(max_rounds + 1) * (max_retries + 1)\<close>: every
  call of the loop is one round-trip and at most \<open>max_retries\<close> retries. When no
  round-trip fails transiently the round-trips are \<^verbatim>\<open>round_count\<close> plus one, or
  \<^verbatim>\<open>round_count\<close> when the limit was hit, at most \<open>max_rounds + 1\<close>. With an LLM that requests
  a tool call on every round-trip the turn ends degraded, after \<open>max_rounds + 1\<close>
  round-trips.
\<close>

theorem rounds_bounded_by_max_rounds:
  "1 \<le> llm_calls (run_turn a user_message ww)
   \<and> llm_calls (run_turn a user_message ww) \<le> (max_rounds a + 1) * (max_retries a + 1)
   \<and> round_count (run_turn a user_message ww) \<le> max_rounds a + 1
   \<and> (if max_rounds a < round_count (run_turn a user_message ww)
       then round_count (run_turn a user_message ww)
       else round_count (run_turn a user_message ww) + 1)
      \<le> llm_calls (run_turn a user_message ww)
   \<and> ((\<forall>k h e. chat a k h \<noteq> Inl (Transient e)) \<longrightarrow>
        llm_calls (run_turn a user_message ww)
          = (if max_rounds a < round_count (run_turn a user_message ww)
             then round_count (run_turn a user_message ww)
             else round_count (run_turn a user_message ww) + 1)
        \<and> llm_calls (run_turn a user_message ww) \<le> max_rounds a + 1)
   \<and> (max_rounds a < round_count (run_turn a user_message ww)
        \<longleftrightarrow> outcome (run_turn a user_message ww) = ToolLoopExceeded (limit_answer a))
   \<and> ((\<forall>k h. \<exists>reply. chat a k h = Inr reply \<and> tool_calls reply \<noteq> []) \<longrightarrow>
        outcome (run_turn a user_message ww) = ToolLoopExceeded (limit_answer a)
        \<and> round_count (run_turn a user_message ww) = max_rounds a + 1
        \<and> llm_calls (run_turn a user_message ww) = max_rounds a + 1)"
proof -
  let ?ww = "(fst (cw_append user_message (fst ww)), snd ww)"
  let ?T = "rounds a ?ww 0 0"
  let ?e = "if max_rounds a < round_count ?T then 0 else 1 :: nat"
  have run: "run_turn a user_message ww = ?T"
    by (simp add: run_turn_def)
  have K: "snd (call_llm a h c (max_retries a)) \<le> c + (max_retries a + 1)" for h c
    using call_llm_calls [of c a h "max_retries a"] by simp
  have b: "round_count ?T \<le> max_rounds a + 1"
    and lo: "round_count ?T + ?e \<le> llm_calls ?T"
    and hi: "llm_calls ?T \<le> (round_count ?T + ?e) * (max_retries a + 1)"
    and o: "(\<exists>t. outcome ?T = ToolLoopExceeded t) \<longleftrightarrow> max_rounds a < round_count ?T"
    using rounds_bounds [of a "max_retries a + 1" 0 ?ww 0, OF K] by simp_all
  from b have "round_count ?T + ?e \<le> max_rounds a + 1"
    by simp
  then have "(round_count ?T + ?e) * (max_retries a + 1) \<le> (max_rounds a + 1) * (max_retries a + 1)"
    by (rule mult_le_mono1)
  with hi have upper: "llm_calls ?T \<le> (max_rounds a + 1) * (max_retries a + 1)"
    by (rule le_trans)
  from lo have one: "1 \<le> llm_calls ?T"
    by (simp split: if_splits)
  from lo have per_round: "(if max_rounds a < round_count ?T then round_count ?T
                            else round_count ?T + 1) \<le> llm_calls ?T"
    by (simp split: if_splits)
  have exact: "llm_calls ?T = (if max_rounds a < round_count ?T then round_count ?T
                               else round_count ?T + 1)
      \<and> llm_calls ?T \<le> max_rounds a + 1"
    if nt: "\<forall>k h e. chat a k h \<noteq> Inl (Transient e)"
  proof -
    have "snd (call_llm a h c (max_retries a)) \<le> c + 1" for h c
      using nt by (simp add: call_llm_first)
    from rounds_bounds [of a 1 0 ?ww 0, OF this]
    have "llm_calls ?T \<le> round_count ?T + ?e"
      by simp
    with lo b show ?thesis
      by (simp split: if_splits)
  qed
  have limit: "outcome ?T = ToolLoopExceeded (limit_answer a)"
    if "outcome ?T = ToolLoopExceeded t" for t
    using that rounds_outcome_limit [of a ?ww 0 0] by simp
  have exceeded: "max_rounds a < round_count ?T
      \<longleftrightarrow> outcome ?T = ToolLoopExceeded (limit_answer a)"
    using o limit by blast
  have stub: "outcome ?T = ToolLoopExceeded (limit_answer a)
      \<and> round_count ?T = max_rounds a + 1 \<and> llm_calls ?T = max_rounds a + 1"
    if s: "\<forall>k h. \<exists>reply. chat a k h = Inr reply \<and> tool_calls reply \<noteq> []"
  proof -
    from s have "\<forall>k h e. chat a k h \<noteq> Inl (Transient e)"
      by (metis Inl_Inr_False)
    from exact [OF this] rounds_always_tool [OF s, of 0 ?ww 0] show ?thesis
      by simp
  qed
  from one upper b per_round exact exceeded stub show ?thesis
    unfolding run by blast
qed

lemma always_tool_fields:
  "chat always_tool k h = Inr ls_request" "max_rounds always_tool = 2"
  "max_retries always_tool = 0" "limit_answer always_tool = ascii ''Tool round limit reached.''"
  "tool_calls ls_request \<noteq> []"
  by (simp_all add: always_tool_def ls_request_def)

lemma flaky_tool_fields:
  "chat flaky_tool k h = (if even k then Inl (Transient ''rate limit'') else Inr ls_request)"
  "max_rounds flaky_tool = 2" "max_retries flaky_tool = 1"
  "limit_answer flaky_tool = ascii ''Tool round limit reached.''"
  by (simp_all add: flaky_tool_def always_tool_def)

lemma always_tool_round:
  "n < 2 \<Longrightarrow> rounds always_tool ww n calls
     = rounds always_tool (tool_round always_tool ls_request ww) (Suc n) (Suc calls)"
  "rounds always_tool ww (Suc (Suc 0)) calls =
     \<lparr>outcome = ToolLoopExceeded (ascii ''Tool round limit reached.''),
      round_count = Suc (Suc (Suc 0)), llm_calls = Suc calls,
      window = finalize always_tool (ascii ''Tool round limit reached.'')
                 (fst (tool_round always_tool ls_request ww)),
      world_after = snd (tool_round always_tool ls_request ww)\<rparr>"
proof -
  have c: "call_llm always_tool (snapshot (fst ww)) calls (max_retries always_tool)
      = (Inr ls_request, Suc calls)"
    by (simp add: always_tool_fields)
  from rounds_again [OF c, of n]
  show "n < 2 \<Longrightarrow> rounds always_tool ww n calls
     = rounds always_tool (tool_round always_tool ls_request ww) (Suc n) (Suc calls)"
    by (simp add: always_tool_fields)
  from rounds_exceeded [OF c, of "Suc (Suc 0)"]
  show "rounds always_tool ww (Suc (Suc 0)) calls =
     \<lparr>outcome = ToolLoopExceeded (ascii ''Tool round limit reached.''),
      round_count = Suc (Suc (Suc 0)), llm_calls = Suc calls,
      window = finalize always_tool (ascii ''Tool round limit reached.'')
                 (fst (tool_round always_tool ls_request ww)),
      world_after = snd (tool_round always_tool ls_request ww)\<rparr>"
    by (simp add: always_tool_fields)
qed

lemma flaky_tool_round:
  "even calls \<Longrightarrow> n < 2 \<Longrightarrow> rounds flaky_tool ww n calls
     = rounds flaky_tool (tool_round flaky_tool ls_request ww) (Suc n) (Suc (Suc calls))"
  "even calls \<Longrightarrow> rounds flaky_tool ww (Suc (Suc 0)) calls =
     \<lparr>outcome = ToolLoopExceeded (ascii ''Tool round limit reached.''),
      round_count = Suc (Suc (Suc 0)), llm_calls = Suc (Suc calls),
      window = finalize flaky_tool (ascii ''Tool round limit reached.'')
                 (fst (tool_round flaky_tool ls_request ww)),
      world_after = snd (tool_round flaky_tool ls_request ww)\<rparr>"
proof -
  have c: "call_llm flaky_tool (snapshot (fst ww)) calls (max_retries flaky_tool)
      = (Inr ls_request, Suc (Suc calls))" if "even calls"
    using that by (simp add: flaky_tool_fields)
  show "even calls \<Longrightarrow> n < 2 \<Longrightarrow> rounds flaky_tool ww n calls
     = rounds flaky_tool (tool_round flaky_tool ls_request ww) (Suc n) (Suc (Suc calls))"
    using rounds_again [OF c, of n] by (simp add: flaky_tool_fields always_tool_fields)
  assume "even calls"
  from rounds_exceeded [OF c [OF this], of "Suc (Suc 0)"]
  show "rounds flaky_tool ww (Suc (Suc 0)) calls =
     \<lparr>outcome = ToolLoopExceeded (ascii ''Tool round limit reached.''),
      round_count = Suc (Suc (Suc 0)), llm_calls = Suc (Suc calls),
      window = finalize flaky_tool (ascii ''Tool round limit reached.'')
                 (fst (tool_round flaky_tool ls_request ww)),
      world_after = snd (tool_round flaky_tool ls_request ww)\<rparr>"
    by (simp add: flaky_tool_fields always_tool_fields)
qed

text \<open>
  The claim as stated fails: with a maximum of two rounds, the turn of an LLM that always
  requests a tool call makes three LLM round-trips before \<^verbatim>\<open>round_count\<close> exceeds the
  maximum, and six when every call fails once with a rate limit and is retried.
\<close>

theorem rounds_counterexample:
  "max_rounds always_tool = 2
   \<and> llm_calls (run_turn always_tool user_hello (window_3, ())) = 3
   \<and> max_rounds always_tool < llm_calls (run_turn always_tool user_hello (window_3, ()))
   \<and> round_count (run_turn always_tool user_hello (window_3, ())) = 3
   \<and> max_rounds flaky_tool = 2
   \<and> llm_calls (run_turn flaky_tool user_hello (window_3, ())) = 6
   \<and> round_count (run_turn flaky_tool user_hello (window_3, ())) = 3"
proof -
  have a: "llm_calls (rounds always_tool ww 0 0) = 3"
    "round_count (rounds always_tool ww 0 0) = 3" for ww
    by (simp_all add: always_tool_round)
  have f: "llm_calls (rounds flaky_tool ww 0 0) = 6"
    "round_count (rounds flaky_tool ww 0 0) = 3" for ww
    by (simp_all add: flaky_tool_round)
  from a f show ?thesis
    by (simp add: run_turn_def always_tool_fields flaky_tool_fields)
qed

theorem rounds_bounded_by_max_rounds_witness:
  "(\<forall>k h e. chat always_tool k h \<noteq> Inl (Transient e))
   \<and> (\<forall>k h. \<exists>reply. chat always_tool k h = Inr reply \<and> tool_calls reply \<noteq> [])
   \<and> round_count (run_turn always_tool user_hello (window_3, ())) = 3
   \<and> llm_calls (run_turn always_tool user_hello (window_3, ())) = 3
   \<and> outcome (run_turn always_tool user_hello (window_3, ()))
       = ToolLoopExceeded (ascii ''Tool round limit reached.'')
   \<and> llm_calls (run_turn flaky_tool user_hello (window_3, ())) \<le> 6"
proof -
  have t: "\<forall>k h e. chat always_tool k h \<noteq> Inl (Transient e)"
    by (simp add: always_tool_fields)
  have s: "\<forall>k h. \<exists>reply. chat always_tool k h = Inr reply \<and> tool_calls reply \<noteq> []"
    by (simp add: always_tool_fields)
  from rounds_bounded_by_max_rounds [of always_tool user_hello "(window_3, ())"] s
  have "round_count (run_turn always_tool user_hello (window_3, ())) = 3"
    "llm_calls (run_turn always_tool user_hello (window_3, ())) = 3"
    "outcome (run_turn always_tool user_hello (window_3, ()))
       = ToolLoopExceeded (ascii ''Tool round limit reached.'')"
    by (simp_all add: always_tool_fields)
  moreover from rounds_bounded_by_max_rounds [of flaky_tool user_hello "(window_3, ())"]
  have "llm_calls (run_turn flaky_tool user_hello (window_3, ())) \<le> 6"
    by (simp add: flaky_tool_fields)
  ultimately show ?thesis
    using t s by simp
qed

end
